theory Spec2Isabelle
  imports Main "HOL-Library.Word" "HOL-Library.Multiset"
begin

section \<open>Values\<close>

text \<open>
  A JavaScript string is a sequence of UTF-16 code units, an \<open>ArrayBuffer\<close> a sequence of
  bytes. The values stored in the object stores are the JSON-representable values (null,
  booleans, integral numbers, strings, arrays, plain objects) and \<open>ArrayBuffer\<close>s. An object
  is the list of its own properties in enumeration order.
\<close>

type_synonym byte = "8 word"
type_synonym cunit = "16 word"
type_synonym jsstring = "cunit list"

datatype jsval =
    JNull
  | JBool bool
  | JNum int
  | JStr jsstring
  | JArr "jsval list"
  | JObj "(jsstring \<times> jsval) list"
  | JBuf "byte list"

definition js :: "string \<Rightarrow> jsstring" where
  "js s = map of_char s"

section \<open>The binary codec\<close>

text \<open>\<^verbatim>\<open>hasArrayBuffer && (value instanceof ArrayBuffer || toString.call(value) === '[object ArrayBuffer]')\<close>\<close>

fun isArrayBuffer :: "jsval \<Rightarrow> bool" where
  "isArrayBuffer (JBuf b) = True"
| "isArrayBuffer v = False"

text \<open>
  \<^verbatim>\<open>String.fromCharCode.apply(null, new Uint8Array(buf))\<close>: one code unit per byte of the
  buffer, with the byte's unsigned value.
\<close>

definition ab2str :: "byte list \<Rightarrow> jsstring" where
  "ab2str buf = map ucast buf"

text \<open>
  \<^verbatim>\<open>for (var i=0, strLen=str.length; i < strLen; i++) bufView[i] = str.charCodeAt(i);\<close>
  A store into a \<open>Uint8Array\<close> keeps the value modulo 256.
\<close>

function str2ab_loop :: "jsstring \<Rightarrow> nat \<Rightarrow> nat \<Rightarrow> byte list \<Rightarrow> byte list" where
  "str2ab_loop str i strLen bufView =
     (if i < strLen then str2ab_loop str (Suc i) strLen (bufView[i := ucast (str ! i)])
      else bufView)"
  by pat_completeness auto
termination
  by (relation "measure (\<lambda>(str, i, strLen, bufView). strLen - i)") auto

text \<open>\<^verbatim>\<open>var buf = new ArrayBuffer(str.length*2); var bufView = new Uint8Array(buf);\<close>\<close>

definition str2ab :: "jsstring \<Rightarrow> byte list" where
  "str2ab str = str2ab_loop str 0 (length str) (replicate (length str * 2) 0)"

section \<open>Replacer and reviver\<close>

definition sentinel :: jsstring where
  "sentinel = js ''_$AB''"

text \<open>\<^verbatim>\<open>if (isArrayBuffer(value)) return '_$AB' + ab2str(value); return value;\<close>\<close>

fun exportReplacer :: "jsstring \<Rightarrow> jsval \<Rightarrow> jsval" where
  "exportReplacer key (JBuf b) = JStr (sentinel @ ab2str b)"
| "exportReplacer key v = v"

text \<open>
  \<^verbatim>\<open>if (typeof value === 'string' && value.startsWith('_$AB')) return str2ab(value.slice(4));\<close>
\<close>

definition startsWith :: "jsstring \<Rightarrow> jsstring \<Rightarrow> bool" where
  "startsWith s p = (take (length p) s = p)"

fun importResolver :: "jsstring \<Rightarrow> jsval \<Rightarrow> jsval" where
  "importResolver key (JStr s) =
     (if startsWith s sentinel then JBuf (str2ab (drop 4 s)) else JStr s)"
| "importResolver key v = v"

section \<open>Objects\<close>

text \<open>
  An ordinary object enumerates its own properties with the array indices first, in ascending
  numeric order, and then the other keys in the order of their creation. An array index is a
  key \<open>k\<close> with \<open>ToString(ToUint32(k)) = k\<close> below \<open>2^32 - 1\<close>.
\<close>

definition is_digit :: "cunit \<Rightarrow> bool" where
  "is_digit c = (0x30 \<le> c \<and> c \<le> 0x39)"

definition digit_val :: "cunit \<Rightarrow> nat" where
  "digit_val c = unat c - 48"

definition digit_char :: "nat \<Rightarrow> cunit" where
  "digit_char d = of_nat (48 + d)"

fun dec_val :: "nat \<Rightarrow> jsstring \<Rightarrow> nat" where
  "dec_val a [] = a"
| "dec_val a (c # cs) = dec_val (10 * a + digit_val c) cs"

fun show_nat :: "nat \<Rightarrow> jsstring" where
  "show_nat n = (if n < 10 then [digit_char n] else show_nat (n div 10) @ [digit_char (n mod 10)])"

declare show_nat.simps [simp del]

definition show_int :: "int \<Rightarrow> jsstring" where
  "show_int n = (if n < 0 then 0x2D # show_nat (nat (- n)) else show_nat (nat n))"

definition array_index :: "jsstring \<Rightarrow> nat option" where
  "array_index k =
     (if k \<noteq> [] \<and> list_all is_digit k \<and> show_nat (dec_val 0 k) = k \<and> dec_val 0 k < 4294967295
      then Some (dec_val 0 k) else None)"

definition key_before :: "jsstring \<Rightarrow> jsstring \<Rightarrow> bool" where
  "key_before k k' =
     (case array_index k of
        None \<Rightarrow> False
      | Some i \<Rightarrow> (case array_index k' of None \<Rightarrow> True | Some j \<Rightarrow> i < j))"

text \<open>\<^verbatim>\<open>obj[k] = v\<close> on an ordinary object.\<close>

fun obj_set :: "(jsstring \<times> jsval) list \<Rightarrow> jsstring \<Rightarrow> jsval \<Rightarrow> (jsstring \<times> jsval) list" where
  "obj_set [] k v = [(k, v)]"
| "obj_set ((k', v') # kvs) k v =
     (if k' = k then (k, v) # kvs
      else if key_before k k' then (k, v) # (k', v') # kvs
      else (k', v') # obj_set kvs k v)"

text \<open>
  \<^verbatim>\<open>obj[k] = v\<close> on an object that inherits from \<open>Object.prototype\<close>, as the object
  literal \<open>{}\<close> does: the key \<open>__proto__\<close> reaches the inherited setter, which changes the
  prototype of the object and creates no own property.
\<close>

definition obj_assign :: "(jsstring \<times> jsval) list \<Rightarrow> jsstring \<Rightarrow> jsval \<Rightarrow> (jsstring \<times> jsval) list" where
  "obj_assign kvs k v = (if k = js ''__proto__'' then kvs else obj_set kvs k v)"

text \<open>\<^verbatim>\<open>delete obj[k]\<close>\<close>

definition obj_delete :: "(jsstring \<times> jsval) list \<Rightarrow> jsstring \<Rightarrow> (jsstring \<times> jsval) list" where
  "obj_delete kvs k = filter (\<lambda>kv. fst kv \<noteq> k) kvs"

text \<open>lodash \<open>keys\<close>: the own enumerable property names.\<close>

definition keys :: "(jsstring \<times> jsval) list \<Rightarrow> jsstring list" where
  "keys obj = map fst obj"

section \<open>JSON.stringify\<close>

text \<open>
  The host's \<open>JSON.stringify(value, replacer)\<close> without indentation, on the values above.
  The flag tells whether \<open>exportReplacer\<close> is passed as the replacer: the source calls
  \<open>JSON.stringify(exportObject)\<close> for a database without stores and
  \<open>JSON.stringify(exportObject, exportReplacer)\<close> otherwise. A number is printed in plain
  decimal, which is what the host does for the integers up to \<open>2^53 - 1\<close> in magnitude. An
  \<open>ArrayBuffer\<close> that reaches the serializer has no enumerable property and prints as \<open>{}\<close>.
\<close>

definition hex_char :: "nat \<Rightarrow> cunit" where
  "hex_char d = (if d < 10 then of_nat (48 + d) else of_nat (87 + d))"

definition UnicodeEscape :: "cunit \<Rightarrow> jsstring" where
  "UnicodeEscape c =
     [0x5C, 0x75, hex_char (unat c div 4096 mod 16), hex_char (unat c div 256 mod 16),
      hex_char (unat c div 16 mod 16), hex_char (unat c mod 16)]"

definition is_high_surrogate :: "cunit \<Rightarrow> bool" where
  "is_high_surrogate c = (0xD800 \<le> c \<and> c \<le> 0xDBFF)"

definition is_low_surrogate :: "cunit \<Rightarrow> bool" where
  "is_low_surrogate c = (0xDC00 \<le> c \<and> c \<le> 0xDFFF)"

definition quote_unit :: "cunit \<Rightarrow> jsstring" where
  "quote_unit c =
     (if c = 0x08 then [0x5C, 0x62]
      else if c = 0x09 then [0x5C, 0x74]
      else if c = 0x0A then [0x5C, 0x6E]
      else if c = 0x0C then [0x5C, 0x66]
      else if c = 0x0D then [0x5C, 0x72]
      else if c = 0x22 then [0x5C, 0x22]
      else if c = 0x5C then [0x5C, 0x5C]
      else if c < 0x20 \<or> is_high_surrogate c \<or> is_low_surrogate c then UnicodeEscape c
      else [c])"

fun quote_body :: "jsstring \<Rightarrow> jsstring" where
  "quote_body [] = []"
| "quote_body [c] = quote_unit c"
| "quote_body (c # d # cs) =
     (if is_high_surrogate c \<and> is_low_surrogate d then c # d # quote_body cs
      else quote_unit c @ quote_body (d # cs))"

definition QuoteJSONString :: "jsstring \<Rightarrow> jsstring" where
  "QuoteJSONString s = 0x22 # quote_body s @ [0x22]"

fun join :: "'a list \<Rightarrow> 'a list list \<Rightarrow> 'a list" where
  "join sep [] = []"
| "join sep [x] = x"
| "join sep (x # y # ys) = x @ sep @ join sep (y # ys)"

function SerializeJSONProperty :: "bool \<Rightarrow> jsstring \<Rightarrow> jsval \<Rightarrow> jsstring" where
  "SerializeJSONProperty replacer key val =
     (case (if replacer then exportReplacer key val else val) of
        JNull \<Rightarrow> js ''null''
      | JBool b \<Rightarrow> (if b then js ''true'' else js ''false'')
      | JNum n \<Rightarrow> show_int n
      | JStr s \<Rightarrow> QuoteJSONString s
      | JArr xs \<Rightarrow>
          [0x5B] @ join [0x2C]
            (map (\<lambda>(i, x). SerializeJSONProperty replacer (show_nat i) x) (enumerate 0 xs)) @ [0x5D]
      | JObj kvs \<Rightarrow>
          [0x7B] @ join [0x2C]
            (map (\<lambda>(k, x). QuoteJSONString k @ [0x3A] @ SerializeJSONProperty replacer k x) kvs) @ [0x7D]
      | JBuf b \<Rightarrow> js ''{}'')"
  by pat_completeness auto
termination
proof (relation "measure (\<lambda>(replacer, key, val). size val)")
  show "wf (measure (\<lambda>(replacer, key, val). size val))"
    by simp
next
  fix replacer :: bool and key :: jsstring and val :: jsval and xs :: "jsval list"
    and p :: "nat \<times> jsval" and i :: nat and x :: jsval
  assume r: "(if replacer then exportReplacer key val else val) = JArr xs"
    and p: "p \<in> set (enumerate 0 xs)" and ix: "(i, x) = p"
  from r have v: "val = JArr xs"
    by (cases val) (auto split: if_splits)
  from p ix have "x \<in> set xs"
    by (auto simp: in_set_enumerate_eq)
  then have "size x < Suc (size_list size xs)"
    by (simp add: less_Suc_eq_le size_list_estimation')
  with v show "((replacer, show_nat i, x), replacer, key, val) \<in> measure (\<lambda>(replacer, key, val). size val)"
    by simp
next
  fix replacer :: bool and key :: jsstring and val :: jsval and kvs :: "(jsstring \<times> jsval) list"
    and p :: "jsstring \<times> jsval" and k :: jsstring and x :: jsval
  assume r: "(if replacer then exportReplacer key val else val) = JObj kvs"
    and p: "p \<in> set kvs" and kx: "(k, x) = p"
  from r have v: "val = JObj kvs"
    by (cases val) (auto split: if_splits)
  from p kx have "size x \<le> size_prod (\<lambda>_. 0) size p"
    by auto
  with p have "size x \<le> size_list (size_prod (\<lambda>_. 0) size) kvs"
    by (meson size_list_estimation')
  with v show "((replacer, k, x), replacer, key, val) \<in> measure (\<lambda>(replacer, key, val). size val)"
    by simp
qed

declare SerializeJSONProperty.simps [simp del]

definition JSON_stringify :: "bool \<Rightarrow> jsval \<Rightarrow> jsstring" where
  "JSON_stringify replacer val = SerializeJSONProperty replacer [] val"

section \<open>JSON.parse\<close>

text \<open>
  What a call can come to: it returns a value, it throws, or it leaves the part of the
  language that is modelled here. The text of \<open>JSON.parse\<close> is checked against the whole
  grammar of JSON, so that a \<open>SyntaxError\<close> is thrown for exactly the texts that are not valid
  JSON. A valid text is outside the model when it has a number literal with a fraction or an
  exponent, or an integer beyond \<open>2^53 - 1\<close> in magnitude, which the host rounds.
\<close>

datatype js_exception = SyntaxError | TypeError | InvalidAccessError

datatype 'a outcome = Returned 'a | Threw js_exception | OutsideModel

datatype token =
    TLBrace | TRBrace | TLBracket | TRBracket | TColon | TComma
  | TString jsstring | TNumber int | TNonInteger | TTrue | TFalse | TNull

datatype exponent_part = AfterE | AfterSign | ExponentDigits

datatype lex_mode =
    LStart
  | LString jsstring
  | LEscape jsstring
  | LUnicode jsstring "nat list"
  | LMinus
  | LZero
  | LDigits bool nat
  | LFraction bool
  | LExponent exponent_part
  | LWord jsstring token

definition is_ws :: "cunit \<Rightarrow> bool" where
  "is_ws c = (c = 0x20 \<or> c = 0x09 \<or> c = 0x0A \<or> c = 0x0D)"

definition is_exponent :: "cunit \<Rightarrow> bool" where
  "is_exponent c = (c = 0x65 \<or> c = 0x45)"

definition hex_val :: "cunit \<Rightarrow> nat option" where
  "hex_val c =
     (if 0x30 \<le> c \<and> c \<le> 0x39 then Some (unat c - 48)
      else if 0x61 \<le> c \<and> c \<le> 0x66 then Some (unat c - 87)
      else if 0x41 \<le> c \<and> c \<le> 0x46 then Some (unat c - 55)
      else None)"

definition escape_char :: "cunit \<Rightarrow> cunit option" where
  "escape_char c =
     (if c = 0x22 then Some 0x22
      else if c = 0x5C then Some 0x5C
      else if c = 0x2F then Some 0x2F
      else if c = 0x62 then Some 0x08
      else if c = 0x66 then Some 0x0C
      else if c = 0x6E then Some 0x0A
      else if c = 0x72 then Some 0x0D
      else if c = 0x74 then Some 0x09
      else None)"

definition punctuator :: "cunit \<Rightarrow> token option" where
  "punctuator c =
     (if c = 0x7B then Some TLBrace
      else if c = 0x7D then Some TRBrace
      else if c = 0x5B then Some TLBracket
      else if c = 0x5D then Some TRBracket
      else if c = 0x3A then Some TColon
      else if c = 0x2C then Some TComma
      else None)"

definition signed :: "bool \<Rightarrow> nat \<Rightarrow> int" where
  "signed neg n = (if neg then - int n else int n)"

fun emit :: "token \<Rightarrow> token list outcome \<Rightarrow> token list outcome" where
  "emit t (Returned ts) = Returned (t # ts)"
| "emit t (Threw e) = Threw e"
| "emit t OutsideModel = OutsideModel"

function lex :: "lex_mode \<Rightarrow> jsstring \<Rightarrow> token list outcome" where
  "lex LStart [] = Returned []"
| "lex LStart (c # cs) =
     (if is_ws c then lex LStart cs
      else if punctuator c \<noteq> None then emit (the (punctuator c)) (lex LStart cs)
      else if c = 0x22 then lex (LString []) cs
      else if c = 0x2D then lex LMinus cs
      else if c = 0x30 then lex LZero cs
      else if is_digit c then lex (LDigits False (digit_val c)) cs
      else if c = 0x74 then lex (LWord (js ''rue'') TTrue) cs
      else if c = 0x66 then lex (LWord (js ''alse'') TFalse) cs
      else if c = 0x6E then lex (LWord (js ''ull'') TNull) cs
      else Threw SyntaxError)"
| "lex (LString acc) [] = Threw SyntaxError"
| "lex (LString acc) (c # cs) =
     (if c = 0x22 then emit (TString acc) (lex LStart cs)
      else if c = 0x5C then lex (LEscape acc) cs
      else if c < 0x20 then Threw SyntaxError
      else lex (LString (acc @ [c])) cs)"
| "lex (LEscape acc) [] = Threw SyntaxError"
| "lex (LEscape acc) (c # cs) =
     (if c = 0x75 then lex (LUnicode acc []) cs
      else (case escape_char c of
              Some d \<Rightarrow> lex (LString (acc @ [d])) cs
            | None \<Rightarrow> Threw SyntaxError))"
| "lex (LUnicode acc ds) [] = Threw SyntaxError"
| "lex (LUnicode acc ds) (c # cs) =
     (case hex_val c of
        None \<Rightarrow> Threw SyntaxError
      | Some d \<Rightarrow>
          (if length ds = 3 then lex (LString (acc @ [of_nat (foldl (\<lambda>a h. 16 * a + h) 0 (ds @ [d]))])) cs
           else lex (LUnicode acc (ds @ [d])) cs))"
| "lex LMinus [] = Threw SyntaxError"
| "lex LMinus (c # cs) =
     (if c = 0x30 then lex LZero cs
      else if is_digit c then lex (LDigits True (digit_val c)) cs
      else Threw SyntaxError)"
| "lex LZero [] = Returned [TNumber 0]"
| "lex LZero (c # cs) =
     (if is_digit c then Threw SyntaxError
      else if c = 0x2E then lex (LFraction False) cs
      else if is_exponent c then lex (LExponent AfterE) cs
      else emit (TNumber 0) (lex LStart (c # cs)))"
| "lex (LDigits neg n) [] = Returned [TNumber (signed neg n)]"
| "lex (LDigits neg n) (c # cs) =
     (if is_digit c then lex (LDigits neg (10 * n + digit_val c)) cs
      else if c = 0x2E then lex (LFraction False) cs
      else if is_exponent c then lex (LExponent AfterE) cs
      else emit (TNumber (signed neg n)) (lex LStart (c # cs)))"
| "lex (LFraction digits) [] = (if digits then Returned [TNonInteger] else Threw SyntaxError)"
| "lex (LFraction digits) (c # cs) =
     (if is_digit c then lex (LFraction True) cs
      else if \<not> digits then Threw SyntaxError
      else if is_exponent c then lex (LExponent AfterE) cs
      else emit TNonInteger (lex LStart (c # cs)))"
| "lex (LExponent part) [] =
     (if part = ExponentDigits then Returned [TNonInteger] else Threw SyntaxError)"
| "lex (LExponent part) (c # cs) =
     (if is_digit c then lex (LExponent ExponentDigits) cs
      else if part = AfterE \<and> (c = 0x2B \<or> c = 0x2D) then lex (LExponent AfterSign) cs
      else if part = ExponentDigits then emit TNonInteger (lex LStart (c # cs))
      else Threw SyntaxError)"
| "lex (LWord w t) [] = Threw SyntaxError"
| "lex (LWord w t) (c # cs) =
     (case w of
        [] \<Rightarrow> Threw SyntaxError
      | d # w' \<Rightarrow>
          (if c \<noteq> d then Threw SyntaxError
           else if w' = [] then emit t (lex LStart cs)
           else lex (LWord w' t) cs))"
  by pat_completeness auto
termination
  by (relation "measure (\<lambda>(m, s). 2 * length s + (if m = LStart then 0 else 1))") auto

text \<open>The grammar of JSON values over the tokens, read by a pushdown automaton.\<close>

datatype frame =
    InArray "jsval list"
  | InObject "(jsstring \<times> jsval) list"
  | InMember "(jsstring \<times> jsval) list" jsstring

datatype expect = EValue | EFirst | EAfter | EKeyFirst | EKey | EColon | EEnd jsval

fun deliver :: "frame list \<Rightarrow> jsval \<Rightarrow> (frame list \<times> expect) option" where
  "deliver [] v = Some ([], EEnd v)"
| "deliver (InArray xs # stk) v = Some (InArray (xs @ [v]) # stk, EAfter)"
| "deliver (InMember kvs k # stk) v = Some (InObject (obj_set kvs k v) # stk, EAfter)"
| "deliver (InObject kvs # stk) v = None"

fun begin_value :: "frame list \<Rightarrow> token \<Rightarrow> (frame list \<times> expect) option" where
  "begin_value stk TNull = deliver stk JNull"
| "begin_value stk TTrue = deliver stk (JBool True)"
| "begin_value stk TFalse = deliver stk (JBool False)"
| "begin_value stk (TNumber n) = deliver stk (JNum n)"
| "begin_value stk TNonInteger = deliver stk JNull"
| "begin_value stk (TString s) = deliver stk (JStr s)"
| "begin_value stk TLBracket = Some (InArray [] # stk, EFirst)"
| "begin_value stk TLBrace = Some (InObject [] # stk, EKeyFirst)"
| "begin_value stk t = None"

fun begin_member :: "frame list \<Rightarrow> token \<Rightarrow> (frame list \<times> expect) option" where
  "begin_member (InObject kvs # stk) (TString k) = Some (InMember kvs k # stk, EColon)"
| "begin_member stk t = None"

fun close_frame :: "frame list \<Rightarrow> token \<Rightarrow> (frame list \<times> expect) option" where
  "close_frame (InArray xs # stk) TRBracket = deliver stk (JArr xs)"
| "close_frame (InObject kvs # stk) TRBrace = deliver stk (JObj kvs)"
| "close_frame stk t = None"

fun next_item :: "frame list \<Rightarrow> (frame list \<times> expect) option" where
  "next_item (InArray xs # stk) = Some (InArray xs # stk, EValue)"
| "next_item (InObject kvs # stk) = Some (InObject kvs # stk, EKey)"
| "next_item stk = None"

fun parse_step :: "frame list \<times> expect \<Rightarrow> token \<Rightarrow> (frame list \<times> expect) option" where
  "parse_step (stk, EValue) t = begin_value stk t"
| "parse_step (stk, EFirst) t = (if t = TRBracket then close_frame stk t else begin_value stk t)"
| "parse_step (stk, EAfter) t = (if t = TComma then next_item stk else close_frame stk t)"
| "parse_step (stk, EKeyFirst) t = (if t = TRBrace then close_frame stk t else begin_member stk t)"
| "parse_step (stk, EKey) t = begin_member stk t"
| "parse_step (stk, EColon) t = (if t = TColon then Some (stk, EValue) else None)"
| "parse_step (stk, EEnd v) t = None"

fun parse_tokens :: "frame list \<times> expect \<Rightarrow> token list \<Rightarrow> jsval outcome" where
  "parse_tokens cfg [] = (case cfg of ([], EEnd v) \<Rightarrow> Returned v | _ \<Rightarrow> Threw SyntaxError)"
| "parse_tokens cfg (t # ts) =
     (case parse_step cfg t of
        None \<Rightarrow> Threw SyntaxError
      | Some cfg' \<Rightarrow> parse_tokens cfg' ts)"

text \<open>
  The tokens whose value is modelled. The grammar is checked over all tokens, with \<open>null\<close>
  standing in for a number that is not modelled; the text is then answered \<open>OutsideModel\<close>.
\<close>

fun modelled :: "token \<Rightarrow> bool" where
  "modelled TNonInteger = False"
| "modelled (TNumber n) = (\<bar>n\<bar> \<le> 9007199254740991)"
| "modelled t = True"

definition parse_text :: "jsstring \<Rightarrow> jsval outcome" where
  "parse_text text =
     (case lex LStart text of
        Returned ts \<Rightarrow>
          (case parse_tokens ([], EValue) ts of
             Returned v \<Rightarrow> (if list_all modelled ts then Returned v else OutsideModel)
           | Threw e \<Rightarrow> Threw e
           | OutsideModel \<Rightarrow> OutsideModel)
      | Threw e \<Rightarrow> Threw e
      | OutsideModel \<Rightarrow> OutsideModel)"

text \<open>
  The reviver walk of \<open>JSON.parse(text, reviver)\<close>: the properties of a value first, then
  the value itself. Neither reviver of the source returns \<open>undefined\<close>, so no property is
  ever dropped.
\<close>

function InternalizeJSONProperty :: "(jsstring \<Rightarrow> jsval \<Rightarrow> jsval) \<Rightarrow> jsstring \<Rightarrow> jsval \<Rightarrow> jsval" where
  "InternalizeJSONProperty reviver name (JArr xs) =
     reviver name (JArr (map (\<lambda>(i, x). InternalizeJSONProperty reviver (show_nat i) x) (enumerate 0 xs)))"
| "InternalizeJSONProperty reviver name (JObj kvs) =
     reviver name (JObj (map (\<lambda>(k, x). (k, InternalizeJSONProperty reviver k x)) kvs))"
| "InternalizeJSONProperty reviver name JNull = reviver name JNull"
| "InternalizeJSONProperty reviver name (JBool b) = reviver name (JBool b)"
| "InternalizeJSONProperty reviver name (JNum n) = reviver name (JNum n)"
| "InternalizeJSONProperty reviver name (JStr s) = reviver name (JStr s)"
| "InternalizeJSONProperty reviver name (JBuf bs) = reviver name (JBuf bs)"
  by pat_completeness auto
termination
proof (relation "measure (\<lambda>(reviver, name, val). size val)")
  show "wf (measure (\<lambda>(reviver, name, val). size val))"
    by simp
next
  fix reviver :: "jsstring \<Rightarrow> jsval \<Rightarrow> jsval" and name :: jsstring and xs :: "jsval list"
    and p :: "nat \<times> jsval" and i :: nat and x :: jsval
  assume p: "p \<in> set (enumerate 0 xs)" and ix: "(i, x) = p"
  then have "x \<in> set xs"
    by (auto simp: in_set_enumerate_eq)
  then have "size x < Suc (size_list size xs)"
    by (simp add: less_Suc_eq_le size_list_estimation')
  then show "((reviver, show_nat i, x), reviver, name, JArr xs) \<in> measure (\<lambda>(reviver, name, val). size val)"
    by simp
next
  fix reviver :: "jsstring \<Rightarrow> jsval \<Rightarrow> jsval" and name :: jsstring
    and kvs :: "(jsstring \<times> jsval) list" and p :: "jsstring \<times> jsval" and k :: jsstring and x :: jsval
  assume p: "p \<in> set kvs" and kx: "(k, x) = p"
  then have "size x \<le> size_prod (\<lambda>_. 0) size p"
    by auto
  with p have "size x \<le> size_list (size_prod (\<lambda>_. 0) size) kvs"
    by (meson size_list_estimation')
  then show "((reviver, k, x), reviver, name, JObj kvs) \<in> measure (\<lambda>(reviver, name, val). size val)"
    by simp
qed

definition JSON_parse :: "(jsstring \<Rightarrow> jsval \<Rightarrow> jsval) \<Rightarrow> jsstring \<Rightarrow> jsval outcome" where
  "JSON_parse reviver text =
     (case parse_text text of
        Returned v \<Rightarrow> Returned (InternalizeJSONProperty reviver [] v)
      | Threw e \<Rightarrow> Threw e
      | OutsideModel \<Rightarrow> OutsideModel)"

section \<open>The two rewritings, as the specification words them\<close>

text \<open>
  The specification describes the replacer and the reviver by their effect on a whole value:
  every byte buffer in it becomes the sentinel followed by the encoding of the buffer, and
  every string in it that begins with the sentinel becomes the buffer decoded from the rest.
  These two functions say that; they are compared with the code below.
\<close>

fun tag_buffers :: "jsval \<Rightarrow> jsval" where
  "tag_buffers (JBuf b) = JStr (sentinel @ ab2str b)"
| "tag_buffers (JArr xs) = JArr (map tag_buffers xs)"
| "tag_buffers (JObj kvs) = JObj (map (\<lambda>(k, x). (k, tag_buffers x)) kvs)"
| "tag_buffers v = v"

fun revive_strings :: "jsval \<Rightarrow> jsval" where
  "revive_strings (JStr s) = (if startsWith s sentinel then JBuf (str2ab (drop 4 s)) else JStr s)"
| "revive_strings (JArr xs) = JArr (map revive_strings xs)"
| "revive_strings (JObj kvs) = JObj (map (\<lambda>(k, x). (k, revive_strings x)) kvs)"
| "revive_strings v = v"

section \<open>The storage engine\<close>

text \<open>
  A database is the list of its object stores, each with its records in cursor order.
  The engine answers every pending request once, in any order: with success, which runs the
  request's \<open>onsuccess\<close> handler, or with failure, whose error event bubbles to
  \<open>transaction.onerror\<close>. No handler of the source prevents the default action of that
  event, so the engine aborts the transaction: every other pending request is answered with
  an \<open>AbortError\<close> error event, which bubbles to \<open>transaction.onerror\<close> as well, and the
  transaction answers nothing after that. An event names the pending request it answers by
  its position. The engine refuses a transaction over no store: \<open>idbDatabase.transaction\<close>
  throws an \<open>InvalidAccessError\<close> then. A store takes any record that \<open>add\<close> is given.
\<close>

type_synonym database = "(jsstring \<times> jsval list) list"

definition objectStoreNames :: "database \<Rightarrow> jsstring list" where
  "objectStoreNames db = map fst db"

datatype error_event = ErrorEvent string

definition AbortError :: error_event where
  "AbortError = ErrorEvent ''AbortError''"

datatype event = Succeeds nat | Fails nat error_event

text \<open>
  The error events that reach \<open>transaction.onerror\<close> when a request fails with \<open>e\<close> while
  the requests \<open>pending\<close> (the failing one among them) are pending.
\<close>

definition error_events :: "error_event \<Rightarrow> 'r list \<Rightarrow> error_event list" where
  "error_events e pending = e # replicate (length pending - 1) AbortError"

definition remove_nth :: "nat \<Rightarrow> 'a list \<Rightarrow> 'a list" where
  "remove_nth i xs = take i xs @ drop (Suc i) xs"

fun run :: "('s \<Rightarrow> event \<Rightarrow> 's option) \<Rightarrow> 's \<Rightarrow> event list \<Rightarrow> 's option" where
  "run step st [] = Some st"
| "run step st (ev # evs) = (case step st ev of None \<Rightarrow> None | Some st' \<Rightarrow> run step st' evs)"

fun is_success :: "event \<Rightarrow> bool" where
  "is_success (Succeeds i) = True"
| "is_success (Fails i e) = False"

section \<open>exportToJsonString\<close>

text \<open>
  The state of a call: the \<open>exportObject\<close>, the open cursor requests (each with the store's
  name, its \<open>allObjects\<close> so far and the records the cursor has not reached yet), and the calls
  of \<open>cb\<close> made so far, each with its two arguments (\<open>None\<close> is \<open>null\<close>).
\<close>

record export_state =
  exportObject :: "(jsstring \<times> jsval) list"
  cursors :: "(jsstring \<times> jsval list \<times> jsval list) list"
  export_calls :: "(error_event option \<times> jsstring option) list"

definition exportToJsonString :: "database \<Rightarrow> export_state" where
  "exportToJsonString idbDatabase =
     (if length (objectStoreNames idbDatabase) = 0
      then \<lparr>exportObject = [], cursors = [],
            export_calls = [(None, Some (JSON_stringify False (JObj [])))]\<rparr>
      else \<lparr>exportObject = [],
            cursors = map (\<lambda>(storeName, records). (storeName, [], records)) idbDatabase,
            export_calls = []\<rparr>)"

text \<open>
  The cursor's \<open>onsuccess\<close>: with a record under the cursor, \<open>allObjects.push(cursor.value)\<close>
  and \<open>cursor.continue()\<close>, which asks for the next answer of the same request; at the end,
  \<open>exportObject[storeName] = allObjects\<close> and the comparison of the two lengths.
\<close>

definition export_onsuccess :: "database \<Rightarrow> nat \<Rightarrow> export_state \<Rightarrow> export_state" where
  "export_onsuccess idbDatabase i st =
     (case cursors st ! i of
        (storeName, allObjects, []) \<Rightarrow>
          (let exportObject' = obj_assign (exportObject st) storeName (JArr allObjects);
               st' = st\<lparr>exportObject := exportObject', cursors := remove_nth i (cursors st)\<rparr>
           in if length (objectStoreNames idbDatabase) = length (keys exportObject')
              then st'\<lparr>export_calls := export_calls st @ [(None, Some (JSON_stringify True (JObj exportObject')))]\<rparr>
              else st')
      | (storeName, allObjects, val # records) \<Rightarrow>
          st\<lparr>cursors := (cursors st)[i := (storeName, allObjects @ [val], records)]\<rparr>)"

text \<open>\<^verbatim>\<open>transaction.onerror = function(event) { cb(event, null); }\<close>\<close>

definition export_onerror :: "error_event \<Rightarrow> export_state \<Rightarrow> export_state" where
  "export_onerror e st = st\<lparr>export_calls := export_calls st @ [(Some e, None)]\<rparr>"

fun export_step :: "database \<Rightarrow> export_state \<Rightarrow> event \<Rightarrow> export_state option" where
  "export_step idbDatabase st (Succeeds i) =
     (if i < length (cursors st) then Some (export_onsuccess idbDatabase i st) else None)"
| "export_step idbDatabase st (Fails i e) =
     (if i < length (cursors st)
      then Some ((fold export_onerror (error_events e (cursors st)) st)\<lparr>cursors := []\<rparr>)
      else None)"

definition export_run :: "database \<Rightarrow> event list \<Rightarrow> export_state option" where
  "export_run idbDatabase evs = run (export_step idbDatabase) (exportToJsonString idbDatabase) evs"

section \<open>importFromJsonString\<close>

text \<open>
  The state of a call: the \<open>importObject\<close> (the properties of the parsed root object), the
  \<open>count\<close> of each store's closure, the pending \<open>add\<close> requests (store name and record), the
  contents of the stores, and the calls of \<open>cb\<close> so far.

  The document format is an object with an array of records for a store; \<open>importObject[storeName]\<close>
  is then an array or \<open>undefined\<close>, over which lodash's \<open>forEach\<close> iterates the elements or
  nothing. A parsed \<open>null\<close> makes \<open>importObject[storeName]\<close> throw a \<open>TypeError\<close>. Other
  roots and other entries for a declared store are outside the model.

  The call opens the transaction first (\<open>idbDatabase.transaction(idbDatabase.objectStoreNames,
  "readwrite")\<close>), which throws for a database without stores, and parses the text after that.
\<close>

record import_state =
  importObject :: "(jsstring \<times> jsval) list"
  counts :: "jsstring \<Rightarrow> nat"
  add_requests :: "(jsstring \<times> jsval) list"
  stores :: database
  import_calls :: "error_event option list"

fun is_array_or_undefined :: "jsval option \<Rightarrow> bool" where
  "is_array_or_undefined None = True"
| "is_array_or_undefined (Some (JArr xs)) = True"
| "is_array_or_undefined (Some v) = False"

fun forEach_elements :: "jsval option \<Rightarrow> jsval list" where
  "forEach_elements (Some (JArr xs)) = xs"
| "forEach_elements v = []"

definition importFromJsonString :: "database \<Rightarrow> jsstring \<Rightarrow> import_state outcome" where
  "importFromJsonString idbDatabase jsonString =
     (if objectStoreNames idbDatabase = [] then Threw InvalidAccessError
      else case JSON_parse importResolver jsonString of
        Threw e \<Rightarrow> Threw e
      | OutsideModel \<Rightarrow> OutsideModel
      | Returned (JObj importObject') \<Rightarrow>
          (if list_all (\<lambda>storeName. is_array_or_undefined (map_of importObject' storeName))
                (objectStoreNames idbDatabase)
           then Returned
             \<lparr>importObject = importObject',
              counts = (\<lambda>storeName. 0),
              add_requests = concat (map (\<lambda>storeName.
                  map (\<lambda>toAdd. (storeName, toAdd)) (forEach_elements (map_of importObject' storeName)))
                (objectStoreNames idbDatabase)),
              stores = idbDatabase,
              import_calls = []\<rparr>
           else OutsideModel)
      | Returned JNull \<Rightarrow> Threw TypeError
      | Returned v \<Rightarrow> OutsideModel)"

text \<open>The engine's \<open>add\<close>: the record joins the store when the request succeeds.\<close>

definition store_add :: "jsstring \<Rightarrow> jsval \<Rightarrow> database \<Rightarrow> database" where
  "store_add storeName toAdd db =
     map (\<lambda>(name, records). if name = storeName then (name, records @ [toAdd]) else (name, records)) db"

text \<open>
  \<^verbatim>\<open>count++; if(count === importObject[storeName].length) { delete importObject[storeName];
  if(keys(importObject).length === 0) cb(null); }\<close>
  Reading \<open>length\<close> of \<open>undefined\<close> throws inside the handler, after the increment.
\<close>

definition import_onsuccess :: "nat \<Rightarrow> import_state \<Rightarrow> import_state" where
  "import_onsuccess i st =
     (case add_requests st ! i of
        (storeName, toAdd) \<Rightarrow>
          (let count = counts st storeName + 1;
               st' = st\<lparr>counts := (counts st)(storeName := count),
                        add_requests := remove_nth i (add_requests st),
                        stores := store_add storeName toAdd (stores st)\<rparr>
           in case map_of (importObject st) storeName of
                Some (JArr xs) \<Rightarrow>
                  (if count = length xs
                   then (let importObject' = obj_delete (importObject st) storeName;
                             st'' = st'\<lparr>importObject := importObject'\<rparr>
                         in if length (keys importObject') = 0
                            then st''\<lparr>import_calls := import_calls st @ [None]\<rparr>
                            else st'')
                   else st')
              | _ \<Rightarrow> st'))"

text \<open>
  \<^verbatim>\<open>transaction.onerror = function(event) { cb(event); }\<close>
  The aborted transaction leaves the stores as they were before the call.
\<close>

definition import_onerror :: "error_event \<Rightarrow> import_state \<Rightarrow> import_state" where
  "import_onerror e st = st\<lparr>import_calls := import_calls st @ [Some e]\<rparr>"

fun import_step :: "database \<Rightarrow> import_state \<Rightarrow> event \<Rightarrow> import_state option" where
  "import_step idbDatabase st (Succeeds i) =
     (if i < length (add_requests st) then Some (import_onsuccess i st) else None)"
| "import_step idbDatabase st (Fails i e) =
     (if i < length (add_requests st)
      then Some ((fold import_onerror (error_events e (add_requests st)) st)
                  \<lparr>add_requests := [], stores := idbDatabase\<rparr>)
      else None)"

definition import_run :: "database \<Rightarrow> import_state \<Rightarrow> event list \<Rightarrow> import_state option" where
  "import_run idbDatabase st evs = run (import_step idbDatabase) st evs"

section \<open>clearDatabase\<close>

text \<open>
  The state of a call: \<open>count\<close>, the stores whose \<open>clear\<close> request is pending, the contents
  of the stores, and the calls of \<open>cb\<close> so far. (For a database without stores an engine that
  refuses the transaction makes the call throw; no call of \<open>cb\<close> is made then either.)
\<close>

record clear_state =
  clear_count :: nat
  clear_requests :: "jsstring list"
  clear_stores :: database
  clear_calls :: "error_event option list"

definition clearDatabase :: "database \<Rightarrow> clear_state" where
  "clearDatabase idbDatabase =
     \<lparr>clear_count = 0, clear_requests = objectStoreNames idbDatabase,
      clear_stores = idbDatabase, clear_calls = []\<rparr>"

definition store_clear :: "jsstring \<Rightarrow> database \<Rightarrow> database" where
  "store_clear storeName db =
     map (\<lambda>(name, records). if name = storeName then (name, []) else (name, records)) db"

text \<open>\<^verbatim>\<open>count++; if(count === idbDatabase.objectStoreNames.length) cb(null);\<close>\<close>

definition clear_onsuccess :: "database \<Rightarrow> nat \<Rightarrow> clear_state \<Rightarrow> clear_state" where
  "clear_onsuccess idbDatabase i st =
     (let st' = st\<lparr>clear_count := clear_count st + 1,
                   clear_requests := remove_nth i (clear_requests st),
                   clear_stores := store_clear (clear_requests st ! i) (clear_stores st)\<rparr>
      in if clear_count st' = length (objectStoreNames idbDatabase)
         then st'\<lparr>clear_calls := clear_calls st @ [None]\<rparr>
         else st')"

text \<open>\<^verbatim>\<open>transaction.onerror = function(event) { cb(event); }\<close>\<close>

definition clear_onerror :: "error_event \<Rightarrow> clear_state \<Rightarrow> clear_state" where
  "clear_onerror e st = st\<lparr>clear_calls := clear_calls st @ [Some e]\<rparr>"

fun clear_step :: "database \<Rightarrow> clear_state \<Rightarrow> event \<Rightarrow> clear_state option" where
  "clear_step idbDatabase st (Succeeds i) =
     (if i < length (clear_requests st) then Some (clear_onsuccess idbDatabase i st) else None)"
| "clear_step idbDatabase st (Fails i e) =
     (if i < length (clear_requests st)
      then Some ((fold clear_onerror (error_events e (clear_requests st)) st)
                  \<lparr>clear_requests := [], clear_stores := idbDatabase\<rparr>)
      else None)"

definition clear_run :: "database \<Rightarrow> event list \<Rightarrow> clear_state option" where
  "clear_run idbDatabase evs = run (clear_step idbDatabase) (clearDatabase idbDatabase) evs"

section \<open>Invariants of the runs\<close>

text \<open>
  What holds of the state of a call after any run of events. While a request is pending no
  call of \<open>cb\<close> has been made: \<open>clearDatabase\<close> has counted one success for every store but
  the pending ones; \<open>exportToJsonString\<close> has installed at most one key for every store but
  the pending ones; every pending \<open>add\<close> of \<open>importFromJsonString\<close> belongs to a store whose
  array is still in \<open>importObject\<close>, and the store's \<open>count\<close> and its pending requests add up
  to the length of that array.
\<close>

definition clear_inv :: "database \<Rightarrow> clear_state \<Rightarrow> bool" where
  "clear_inv db st =
     (clear_requests st \<noteq> [] \<longrightarrow>
        clear_calls st = [] \<and> clear_count st + length (clear_requests st) = length (objectStoreNames db))"

definition export_inv :: "database \<Rightarrow> export_state \<Rightarrow> bool" where
  "export_inv db st =
     (cursors st \<noteq> [] \<longrightarrow>
        export_calls st = [] \<and> length (exportObject st) + length (cursors st) \<le> length db)"

definition pending_for :: "jsstring \<Rightarrow> (jsstring \<times> jsval) list \<Rightarrow> jsval list" where
  "pending_for s reqs = map snd (filter (\<lambda>r. fst r = s) reqs)"

definition import_inv :: "import_state \<Rightarrow> bool" where
  "import_inv st =
     ((add_requests st \<noteq> [] \<longrightarrow> import_calls st = [])
      \<and> (\<forall>r \<in> set (add_requests st). \<exists>xs.
            map_of (importObject st) (fst r) = Some (JArr xs)
            \<and> counts st (fst r) + length (pending_for (fst r) (add_requests st)) = length xs))"

text \<open>
  After any run of successes of \<open>exportToJsonString\<close> on a database with distinct store
  names: the stores with an open cursor and the keys of \<open>exportObject\<close> are together the stores
  of the database; a cursor's \<open>allObjects\<close> and the records ahead of it are the records of its
  store; an installed key holds the records of its store; and \<open>cb\<close> was called, once and with
  the serialized \<open>exportObject\<close>, exactly if all keys are installed.
\<close>

definition export_ok :: "database \<Rightarrow> export_state \<Rightarrow> bool" where
  "export_ok db st =
     (mset (map fst (cursors st)) + mset (keys (exportObject st)) = mset (objectStoreNames db)
      \<and> (\<forall>c \<in> set (cursors st). map_of db (fst c) = Some (fst (snd c) @ snd (snd c)))
      \<and> (\<forall>kv \<in> set (exportObject st). \<exists>rs. map_of db (fst kv) = Some rs \<and> snd kv = JArr rs)
      \<and> export_calls st =
          (if length (keys (exportObject st)) = length (objectStoreNames db)
           then [(None, Some (JSON_stringify True (JObj (exportObject st))))] else []))"

section \<open>Properties of the codec\<close>

declare str2ab_loop.simps [simp del]

lemma str2ab_loop_eq:
  "i \<le> strLen \<Longrightarrow> strLen \<le> length str \<Longrightarrow> strLen \<le> length bufView \<Longrightarrow>
   str2ab_loop str i strLen bufView =
     take i bufView @ map ucast (take (strLen - i) (drop i str)) @ drop strLen bufView"
proof (induction str i strLen bufView rule: str2ab_loop.induct)
  case (1 str i strLen bufView)
  show ?case
  proof (cases "i < strLen")
    case True
    let ?b = "bufView[i := ucast (str ! i)]"
    have step: "str2ab_loop str i strLen bufView = str2ab_loop str (Suc i) strLen ?b"
      using True by (subst str2ab_loop.simps) simp
    have ih: "str2ab_loop str (Suc i) strLen ?b =
        take (Suc i) ?b @ map ucast (take (strLen - Suc i) (drop (Suc i) str)) @ drop strLen ?b"
      using "1.IH" [OF True] True "1.prems" by simp
    have a: "take (Suc i) ?b = take i bufView @ [ucast (str ! i)]"
      using True "1.prems" by (simp add: take_Suc_conv_app_nth)
    have b: "drop strLen ?b = drop strLen bufView"
      using True by simp
    have c: "take (strLen - i) (drop i str) = str ! i # take (strLen - Suc i) (drop (Suc i) str)"
      using True "1.prems"
      by (metis Cons_nth_drop_Suc Suc_diff_Suc less_le_trans take_Suc_Cons)
    show ?thesis
      by (simp add: step ih a b c)
  next
    case False
    with "1.prems" have "i = strLen" by simp
    then show ?thesis
      by (subst str2ab_loop.simps) simp
  qed
qed

lemma str2ab_eq: "str2ab str = map ucast str @ replicate (length str) 0"
  by (simp add: str2ab_def str2ab_loop_eq)

lemma str2ab_loop_tail: "drop strLen (str2ab_loop str i strLen bufView) = drop strLen bufView"
proof (induction str i strLen bufView rule: str2ab_loop.induct)
  case (1 str i strLen bufView)
  show ?case
  proof (cases "i < strLen")
    case True
    then show ?thesis
      using "1.IH" by (subst str2ab_loop.simps) simp
  next
    case False
    then show ?thesis
      by (subst str2ab_loop.simps) simp
  qed
qed

lemma ucast_byte_cunit: "(ucast (ucast (b :: byte) :: cunit) :: byte) = b"
  by (rule ucast_up_ucast_id) (simp add: is_up)

lemma unat_ucast_byte: "unat (ucast (b :: byte) :: cunit) = unat b"
proof -
  have "unat b < 2 ^ 8"
    using unsigned_less [of b, where 'a = nat] by simp
  then have "unat b < 2 ^ 16"
    by simp
  then show ?thesis
    by (simp add: unsigned_ucast_eq take_bit_nat_eq_self_iff)
qed

lemma unat_ucast_cunit: "unat (ucast (c :: cunit) :: byte) = unat c mod 256"
  by (simp add: unsigned_ucast_eq take_bit_eq_mod)

lemma str2ab_ab2str: "str2ab (ab2str b) = b @ replicate (length b) 0"
  by (simp add: str2ab_eq ab2str_def ucast_byte_cunit o_def)

text \<open>
  Claim C2 says that decoding the encoding of a byte buffer gives the buffer back. The code
  does so for the empty buffer only: \<open>str2ab\<close> allocates two bytes for each code unit and
  fills the first half, so the decoded buffer is the original followed by as many zero bytes.
  The buffer of the one byte \<open>0x41\<close> comes back as the two bytes \<open>0x41, 0x00\<close>.
\<close>

theorem str2ab_ab2str_doubles:
  "(str2ab (ab2str b) = b) = (b = []) \<and> length (str2ab (ab2str b)) = 2 * length b
   \<and> str2ab (ab2str [0x41]) = [0x41, 0x00]"
proof -
  have "str2ab (ab2str b) = b \<longleftrightarrow> b = []"
  proof
    assume "str2ab (ab2str b) = b"
    then have "length (str2ab (ab2str b)) = length b"
      by simp
    then show "b = []"
      by (simp add: str2ab_ab2str)
  qed (simp add: str2ab_ab2str)
  then show ?thesis
    by (simp add: str2ab_ab2str)
qed

text \<open>
  Claim C8: for every string \<open>s\<close>, \<open>str2ab s\<close> is a buffer of \<open>2 * length s\<close> bytes; its
  first \<open>length s\<close> bytes are the low bytes of the code units of \<open>s\<close> (the code unit modulo
  256), in order; the loop leaves every byte from position \<open>length s\<close> on as it found it,
  which in the fresh buffer is zero.
\<close>

theorem str2ab_layout:
  "length (str2ab s) = 2 * length s
   \<and> take (length s) (str2ab s) = map ucast s
   \<and> map unat (take (length s) (str2ab s)) = map (\<lambda>c. unat c mod 256) s
   \<and> drop (length s) (str2ab s) = replicate (length s) 0
   \<and> drop (length s) (str2ab_loop s 0 (length s) bufView) = drop (length s) bufView"
  by (simp add: str2ab_eq str2ab_loop_tail unat_ucast_cunit o_def)

section \<open>Replacer and reviver over a whole value\<close>

lemma Ser_simps:
  "SerializeJSONProperty r key JNull = js ''null''"
  "SerializeJSONProperty r key (JBool b) = (if b then js ''true'' else js ''false'')"
  "SerializeJSONProperty r key (JNum n) = show_int n"
  "SerializeJSONProperty r key (JStr s) = QuoteJSONString s"
  "SerializeJSONProperty r key (JArr xs) =
     [0x5B] @ join [0x2C] (map (\<lambda>(i, x). SerializeJSONProperty r (show_nat i) x) (enumerate 0 xs)) @ [0x5D]"
  "SerializeJSONProperty r key (JObj kvs) =
     [0x7B] @ join [0x2C] (map (\<lambda>(k, x). QuoteJSONString k @ [0x3A] @ SerializeJSONProperty r k x) kvs) @ [0x7D]"
  "SerializeJSONProperty r key (JBuf bs) = (if r then QuoteJSONString (sentinel @ ab2str bs) else js ''{}'')"
  by (subst SerializeJSONProperty.simps, simp)+

lemma map_enumerate_snd: "map (\<lambda>(i, x). f x) (enumerate n xs) = map f xs"
  by (induction xs arbitrary: n) simp_all

lemma map_enumerate_cong:
  "(\<And>i x. x \<in> set xs \<Longrightarrow> f i x = g i (h x)) \<Longrightarrow>
   map (\<lambda>(i, x). f i x) (enumerate n xs) = map (\<lambda>(i, x). g i x) (enumerate n (map h xs))"
  by (induction xs arbitrary: n) simp_all

lemma map_snd_cong:
  "(\<And>k x. (k, x) \<in> set kvs \<Longrightarrow> f k x = g k (h x)) \<Longrightarrow>
   map (\<lambda>(k, x). f k x) kvs = map (\<lambda>(k, x). g k x) (map (\<lambda>(k, x). (k, h x)) kvs)"
  by (induction kvs) auto

lemma Ser_key: "SerializeJSONProperty r key v = SerializeJSONProperty r [] v"
  by (cases v) (simp_all add: Ser_simps)

lemma Ser_tag_buffers:
  "SerializeJSONProperty True key v = SerializeJSONProperty False key (tag_buffers v)"
proof (induction v arbitrary: key)
  case (JArr xs)
  have h: "map (\<lambda>(i, x). SerializeJSONProperty True (show_nat i) x) (enumerate 0 xs)
      = map (\<lambda>(i, x). SerializeJSONProperty False (show_nat i) x) (enumerate 0 (map tag_buffers xs))"
    using JArr by (intro map_enumerate_cong) simp
  show ?case
    by (simp only: Ser_simps tag_buffers.simps h)
next
  case (JObj kvs)
  have h: "map (\<lambda>(k, x). QuoteJSONString k @ [0x3A] @ SerializeJSONProperty True k x) kvs
      = map (\<lambda>(k, x). QuoteJSONString k @ [0x3A] @ SerializeJSONProperty False k x)
          (map (\<lambda>(k, x). (k, tag_buffers x)) kvs)"
    using JObj by (intro map_snd_cong) fastforce
  show ?case
    by (simp only: Ser_simps tag_buffers.simps h)
qed (simp_all add: Ser_simps)

lemma Internalize_revive:
  "InternalizeJSONProperty importResolver key v = revive_strings v"
proof (induction v arbitrary: key)
  case (JArr xs)
  have "map (\<lambda>(i, x). InternalizeJSONProperty importResolver (show_nat i) x) (enumerate 0 xs)
      = map revive_strings xs"
    using map_enumerate_cong [of xs "\<lambda>i x. InternalizeJSONProperty importResolver (show_nat i) x" "\<lambda>i x. x" revive_strings 0] JArr
    by (simp add: map_enumerate_snd)
  then show ?case by simp
next
  case (JObj kvs)
  have "map (\<lambda>(k, x). (k, InternalizeJSONProperty importResolver k x)) kvs
      = map (\<lambda>(k, x). (k, revive_strings x)) kvs"
    using JObj by (intro map_cong refl) fastforce
  then show ?case by simp
qed simp_all

text \<open>
  Claim C6: in the export serialization every byte buffer is replaced by the string made of
  the four-character sentinel \<open>_$AB\<close> and the encoding of the buffer, one code unit for each
  byte and with the byte's unsigned value; every other value is serialized by the structural
  rules of JSON. Serializing a value with \<open>exportReplacer\<close> gives the text that the plain
  serializer gives for the value with its buffers so replaced.
\<close>

theorem export_serialization:
  "exportReplacer key v = (if isArrayBuffer v then tag_buffers v else v)
   \<and> exportReplacer key (JBuf b) = JStr (sentinel @ ab2str b)
   \<and> sentinel = [0x5F, 0x24, 0x41, 0x42]
   \<and> length (ab2str b) = length b
   \<and> map unat (ab2str b) = map unat b
   \<and> SerializeJSONProperty True key v = SerializeJSONProperty False key (tag_buffers v)
   \<and> JSON_stringify True v = JSON_stringify False (tag_buffers v)"
proof (intro conjI)
  show "exportReplacer key v = (if isArrayBuffer v then tag_buffers v else v)"
    by (cases v) simp_all
  show "sentinel = [0x5F, 0x24, 0x41, 0x42]"
    by (simp add: sentinel_def js_def)
  show "map unat (ab2str b) = map unat b"
    by (simp add: ab2str_def unat_ucast_byte o_def)
  show "length (ab2str b) = length b"
    by (simp add: ab2str_def)
  show "SerializeJSONProperty True key v = SerializeJSONProperty False key (tag_buffers v)"
    by (rule Ser_tag_buffers)
  show "JSON_stringify True v = JSON_stringify False (tag_buffers v)"
    unfolding JSON_stringify_def by (rule Ser_tag_buffers)
qed simp

lemma collision_text:
  "JSON_stringify True (JStr (js ''_$ABhi'')) = [0x22, 0x5F, 0x24, 0x41, 0x42, 0x68, 0x69, 0x22]"
  by (simp add: JSON_stringify_def Ser_simps QuoteJSONString_def js_def quote_unit_def
      is_high_surrogate_def is_low_surrogate_def)

lemma collision_parse:
  "parse_text [0x22, 0x5F, 0x24, 0x41, 0x42, 0x68, 0x69, 0x22] = Returned (JStr (js ''_$ABhi''))"
  by (simp add: parse_text_def is_ws_def punctuator_def js_def)

lemma JSON_parse_revive:
  "JSON_parse importResolver text =
     (case parse_text text of
        Returned v \<Rightarrow> Returned (revive_strings v)
      | Threw e \<Rightarrow> Threw e
      | OutsideModel \<Rightarrow> OutsideModel)"
  by (simp add: JSON_parse_def Internalize_revive split: outcome.splits)

text \<open>
  Claim C7: in the import parsing every string value that begins with the sentinel has the
  sentinel stripped and the rest decoded into a byte buffer, and every other value is parsed
  by the structural rules of JSON. A plain string that happens to begin with the sentinel is
  not told apart: the string \<open>_$ABhi\<close>, exported as it is, comes back as a buffer.
\<close>

theorem import_revival:
  "importResolver key (JStr (sentinel @ s)) = JBuf (str2ab s)
   \<and> importResolver key (JStr s) = (if startsWith s sentinel then JBuf (str2ab (drop 4 s)) else JStr s)
   \<and> importResolver key v = (case v of JStr s \<Rightarrow> revive_strings v | _ \<Rightarrow> v)
   \<and> InternalizeJSONProperty importResolver key v = revive_strings v
   \<and> JSON_parse importResolver text =
       (case parse_text text of
          Returned v \<Rightarrow> Returned (revive_strings v)
        | Threw e \<Rightarrow> Threw e
        | OutsideModel \<Rightarrow> OutsideModel)
   \<and> JSON_parse importResolver (JSON_stringify True (JStr (js ''_$ABhi''))) = Returned (JBuf [0x68, 0x69, 0, 0])"
proof (intro conjI)
  show "importResolver key (JStr (sentinel @ s)) = JBuf (str2ab s)"
    by (simp add: startsWith_def sentinel_def js_def)
  show "importResolver key v = (case v of JStr s \<Rightarrow> revive_strings v | _ \<Rightarrow> v)"
    by (cases v) simp_all
  show "InternalizeJSONProperty importResolver key v = revive_strings v"
    by (rule Internalize_revive)
  show "JSON_parse importResolver text =
       (case parse_text text of
          Returned v \<Rightarrow> Returned (revive_strings v)
        | Threw e \<Rightarrow> Threw e
        | OutsideModel \<Rightarrow> OutsideModel)"
    by (rule JSON_parse_revive)
  have "JSON_parse importResolver (JSON_stringify True (JStr (js ''_$ABhi'')))
      = Returned (revive_strings (JStr (js ''_$ABhi'')))"
    by (simp add: JSON_parse_revive collision_text collision_parse)
  moreover have "revive_strings (JStr (js ''_$ABhi'')) = JBuf [0x68, 0x69, 0, 0]"
    by (simp add: startsWith_def sentinel_def js_def str2ab_eq)
  ultimately show "JSON_parse importResolver (JSON_stringify True (JStr (js ''_$ABhi''))) = Returned (JBuf [0x68, 0x69, 0, 0])"
    by simp
qed simp

section \<open>Runs of the engine\<close>

lemma run_no_requests:
  "(\<And>ev. step st ev = None) \<Longrightarrow> run step st evs = (if evs = [] then Some st else None)"
  by (cases evs) simp_all

lemma run_append:
  "run step st (evs @ evs') = (case run step st evs of None \<Rightarrow> None | Some st' \<Rightarrow> run step st' evs')"
  by (induction evs arbitrary: st) (simp_all split: option.splits)

section \<open>clearDatabase on a database without stores\<close>

text \<open>
  Claim C10: for a database that declares no object store, \<open>clearDatabase\<close> never calls its
  callback. The call itself makes no call of \<open>cb\<close> and leaves no request pending, so that no
  event can follow it: the only run is the empty one. \<open>exportToJsonString\<close>, which has a
  case of its own for such a database, calls back at once with the text \<open>{}\<close>.
\<close>

theorem clearDatabase_no_stores:
  "clear_calls (clearDatabase []) = []
   \<and> clear_requests (clearDatabase []) = []
   \<and> clear_run [] evs = (if evs = [] then Some (clearDatabase []) else None)
   \<and> export_calls (exportToJsonString []) = [(None, Some (js ''{}''))]"
proof -
  have "clear_step [] (clearDatabase []) ev = None" for ev
    by (cases ev) (simp_all add: clearDatabase_def objectStoreNames_def)
  then have "clear_run [] evs = (if evs = [] then Some (clearDatabase []) else None)"
    unfolding clear_run_def by (rule run_no_requests)
  moreover have "JSON_stringify False (JObj []) = js ''{}''"
    by (simp add: JSON_stringify_def SerializeJSONProperty.simps js_def)
  ultimately show ?thesis
    by (simp add: clearDatabase_def objectStoreNames_def exportToJsonString_def)
qed

section \<open>A failed transaction\<close>

lemma length_remove_nth: "i < length xs \<Longrightarrow> length (remove_nth i xs) = length xs - 1"
  by (simp add: remove_nth_def)

lemma remove_nth_Nil: "i < length xs \<Longrightarrow> (remove_nth i xs = []) = (length xs = Suc 0)"
  using length_remove_nth [of i xs] by (cases "remove_nth i xs") auto

lemma run_snoc:
  "run step st (evs @ [ev]) = (case run step st evs of None \<Rightarrow> None | Some st' \<Rightarrow> step st' ev)"
  by (simp add: run_append split: option.splits)

lemma clear_inv_init: "clear_inv db (clearDatabase db)"
  by (simp add: clear_inv_def clearDatabase_def)

lemma clear_inv_step:
  "clear_inv db st \<Longrightarrow> clear_step db st ev = Some st' \<Longrightarrow> clear_inv db st'"
  by (cases ev)
    (auto simp: clear_inv_def clear_onsuccess_def Let_def length_remove_nth
      remove_nth_Nil split: if_splits)

lemma clear_inv_run:
  "clear_inv db st \<Longrightarrow> run (clear_step db) st evs = Some st' \<Longrightarrow> clear_inv db st'"
  by (induction evs arbitrary: st) (auto split: option.splits dest: clear_inv_step)

lemma clear_calls_fold_onerror:
  "clear_calls (fold clear_onerror es st) = clear_calls st @ map Some es"
  by (induction es arbitrary: st) (simp_all add: clear_onerror_def)

lemma clear_error_calls:
  assumes "clear_run db evs = Some st'" "clear_run db (evs @ [Fails i e]) = Some st"
  shows "clear_requests st' \<noteq> []"
    and "clear_calls st = map Some (error_events e (clear_requests st'))"
proof -
  from assms have s: "clear_step db st' (Fails i e) = Some st"
    by (simp add: clear_run_def run_snoc)
  then show ne: "clear_requests st' \<noteq> []"
    by (auto split: if_splits)
  from assms(1) have "clear_inv db st'"
    unfolding clear_run_def using clear_inv_init clear_inv_run by blast
  with ne have "clear_calls st' = []"
    by (simp add: clear_inv_def)
  with s show "clear_calls st = map Some (error_events e (clear_requests st'))"
    by (auto simp: clear_calls_fold_onerror split: if_splits)
qed

lemma length_obj_set_le: "length (obj_set kvs k v) \<le> Suc (length kvs)"
  by (induction kvs) auto

lemma length_obj_assign_le: "length (obj_assign kvs k v) \<le> Suc (length kvs)"
  using length_obj_set_le [of kvs k v] by (simp add: obj_assign_def)

lemma export_inv_init: "export_inv db (exportToJsonString db)"
  by (simp add: export_inv_def exportToJsonString_def objectStoreNames_def)

lemma export_inv_step:
  assumes "export_inv db st" "export_step db st ev = Some st'"
  shows "export_inv db st'"
proof (cases ev)
  case (Succeeds i)
  with assms have i: "i < length (cursors st)" and st': "st' = export_onsuccess db i st"
    by (auto split: if_splits)
  from i assms(1) have c: "export_calls st = []"
    and l: "length (exportObject st) + length (cursors st) \<le> length db"
    by (auto simp: export_inv_def)
  obtain storeName allObjects records where n: "cursors st ! i = (storeName, allObjects, records)"
    by (cases "cursors st ! i") auto
  show ?thesis
  proof (cases records)
    case Nil
    let ?o = "obj_assign (exportObject st) storeName (JArr allObjects)"
    have "length ?o \<le> Suc (length (exportObject st))"
      by (rule length_obj_assign_le)
    with l i have "remove_nth i (cursors st) \<noteq> [] \<Longrightarrow> length ?o < length db"
      by (simp add: remove_nth_Nil)
    moreover have "length ?o + length (remove_nth i (cursors st)) \<le> length db"
      using l i \<open>length ?o \<le> Suc (length (exportObject st))\<close>
      by (simp add: length_remove_nth)
    ultimately show ?thesis
      using st' n Nil c
      by (auto simp: export_inv_def export_onsuccess_def Let_def keys_def objectStoreNames_def)
  next
    case (Cons val rest)
    with st' n c l show ?thesis
      by (auto simp: export_inv_def export_onsuccess_def)
  qed
next
  case (Fails i e)
  with assms show ?thesis
    by (auto simp: export_inv_def split: if_splits)
qed

lemma export_inv_run:
  "export_inv db st \<Longrightarrow> run (export_step db) st evs = Some st' \<Longrightarrow> export_inv db st'"
  by (induction evs arbitrary: st) (auto split: option.splits dest: export_inv_step)

lemma export_calls_fold_onerror:
  "export_calls (fold export_onerror es st) = export_calls st @ map (\<lambda>e. (Some e, None)) es"
  by (induction es arbitrary: st) (simp_all add: export_onerror_def)

lemma export_error_calls:
  assumes "export_run db evs = Some st'" "export_run db (evs @ [Fails i e]) = Some st"
  shows "cursors st' \<noteq> []"
    and "export_calls st = map (\<lambda>e. (Some e, None)) (error_events e (cursors st'))"
proof -
  from assms have s: "export_step db st' (Fails i e) = Some st"
    by (simp add: export_run_def run_snoc)
  then show ne: "cursors st' \<noteq> []"
    by (auto split: if_splits)
  from assms(1) have "export_inv db st'"
    unfolding export_run_def using export_inv_init export_inv_run by blast
  with ne have "export_calls st' = []"
    by (simp add: export_inv_def)
  with s show "export_calls st = map (\<lambda>e. (Some e, None)) (error_events e (cursors st'))"
    by (auto simp: export_calls_fold_onerror split: if_splits)
qed

lemma set_remove_nth: "set (remove_nth i xs) \<subseteq> set xs"
  by (auto simp: remove_nth_def dest: in_set_takeD in_set_dropD)

lemma filter_remove_nth:
  "i < length xs \<Longrightarrow>
   filter P xs = filter P (take i xs) @ (if P (xs ! i) then [xs ! i] else []) @ filter P (drop (Suc i) xs)"
proof -
  assume "i < length xs"
  then have "xs = take i xs @ xs ! i # drop (Suc i) xs"
    by (rule id_take_nth_drop)
  then have "filter P xs = filter P (take i xs @ xs ! i # drop (Suc i) xs)"
    by simp
  then show ?thesis
    by (simp del: append_take_drop_id)
qed

lemma pending_for_remove_nth:
  "i < length reqs \<Longrightarrow>
   length (pending_for s reqs) =
     length (pending_for s (remove_nth i reqs)) + (if fst (reqs ! i) = s then 1 else 0)"
  by (simp add: pending_for_def remove_nth_def filter_remove_nth [of i reqs])

lemma pending_for_mem: "r \<in> set reqs \<Longrightarrow> pending_for (fst r) reqs \<noteq> []"
  by (auto simp: pending_for_def filter_empty_conv)

lemma pending_for_Nil: "pending_for s reqs = [] \<Longrightarrow> r \<in> set reqs \<Longrightarrow> fst r \<noteq> s"
  by (auto simp: pending_for_def filter_empty_conv)

lemma map_of_obj_delete: "map_of (obj_delete kvs k) k' = (if k' = k then None else map_of kvs k')"
  by (induction kvs) (auto simp: obj_delete_def)

lemma import_onsuccess_fields:
  assumes "add_requests st ! i = (s, v)" "map_of (importObject st) s = Some (JArr xs)"
  shows "add_requests (import_onsuccess i st) = remove_nth i (add_requests st)"
    and "counts (import_onsuccess i st) = (counts st)(s := counts st s + 1)"
    and "stores (import_onsuccess i st) = store_add s v (stores st)"
    and "importObject (import_onsuccess i st) =
          (if counts st s + 1 = length xs then obj_delete (importObject st) s else importObject st)"
    and "import_calls (import_onsuccess i st) =
          (if counts st s + 1 = length xs \<and> obj_delete (importObject st) s = []
           then import_calls st @ [None] else import_calls st)"
  using assms by (simp_all add: import_onsuccess_def Let_def keys_def)

lemma import_inv_success:
  assumes inv: "import_inv st" and i: "i < length (add_requests st)"
  shows "import_inv (import_onsuccess i st)"
proof -
  obtain s v where n: "add_requests st ! i = (s, v)"
    by (cases "add_requests st ! i") auto
  let ?reqs = "add_requests st" and ?reqs' = "remove_nth i (add_requests st)"
  let ?st' = "import_onsuccess i st"
  from i n have mem: "(s, v) \<in> set ?reqs"
    by (metis nth_mem)
  with inv obtain xs where look: "map_of (importObject st) s = Some (JArr xs)"
    and cnt: "counts st s + length (pending_for s ?reqs) = length xs"
    by (fastforce simp: import_inv_def)
  note f = import_onsuccess_fields [OF n look]
  from i inv have calls: "import_calls st = []"
    by (auto simp: import_inv_def)
  have p: "length (pending_for s' ?reqs) = length (pending_for s' ?reqs') + (if s = s' then 1 else 0)" for s'
    using pending_for_remove_nth [OF i, of s'] n by simp
  have ps: "length (pending_for s ?reqs) = length (pending_for s ?reqs') + 1"
    using p [of s] by simp
  have rest: "\<exists>ys. map_of (importObject st) (fst r) = Some (JArr ys)
      \<and> counts st (fst r) + length (pending_for (fst r) ?reqs) = length ys" if "r \<in> set ?reqs'" for r
    using that inv set_remove_nth [of i ?reqs] by (auto simp: import_inv_def)
  have other: "fst r \<noteq> s" if "r \<in> set ?reqs'" "counts st s + 1 = length xs" for r
  proof -
    from that(2) cnt ps have "length (pending_for s ?reqs') = 0"
      by arith
    then have "pending_for s ?reqs' = []"
      by (simp only: length_0_conv)
    from pending_for_Nil [OF this that(1)] show ?thesis .
  qed
  have 1: "\<exists>ys. map_of (importObject ?st') (fst r) = Some (JArr ys)
      \<and> counts ?st' (fst r) + length (pending_for (fst r) (add_requests ?st')) = length ys"
    if r: "r \<in> set (add_requests ?st')" for r
  proof -
    from r have r': "r \<in> set ?reqs'"
      by (simp add: f)
    from rest [OF r'] obtain ys where ys: "map_of (importObject st) (fst r) = Some (JArr ys)"
      and c: "counts st (fst r) + length (pending_for (fst r) ?reqs) = length ys"
      by blast
    show ?thesis
    proof (cases "fst r = s")
      case True
      with other [OF r'] have ne: "counts st s + 1 \<noteq> length xs"
        by blast
      from pending_for_mem [OF r'] True have "length (pending_for s ?reqs') \<noteq> 0"
        by simp
      with True ys c ps ne show ?thesis
        by (simp add: f)
    next
      case False
      with ys c p [of "fst r"] show ?thesis
        by (auto simp: f map_of_obj_delete)
    qed
  qed
  have 2: "import_calls ?st' = []" if "add_requests ?st' \<noteq> []"
  proof -
    from that obtain r where r: "r \<in> set (add_requests ?st')"
      by (cases "add_requests ?st'") auto
    from 1 [OF r] have "map_of (importObject ?st') (fst r) \<noteq> None"
      by auto
    then have "importObject ?st' \<noteq> []"
      by auto
    then show ?thesis
      using calls by (auto simp: f split: if_splits)
  qed
  from 1 2 show ?thesis
    unfolding import_inv_def by blast
qed

lemma import_inv_step:
  "import_inv st \<Longrightarrow> import_step db st ev = Some st' \<Longrightarrow> import_inv st'"
  by (cases ev) (auto simp: import_inv_success split: if_splits, auto simp: import_inv_def)

lemma import_inv_run:
  "import_inv st \<Longrightarrow> run (import_step db) st evs = Some st' \<Longrightarrow> import_inv st'"
  by (induction evs arbitrary: st) (auto split: option.splits dest: import_inv_step)

lemma filter_eq_distinct: "distinct xs \<Longrightarrow> x \<in> set xs \<Longrightarrow> filter (\<lambda>n. n = x) xs = [x]"
  by (induction xs) (auto simp: filter_empty_conv)

lemma pending_for_concat:
  "pending_for s (concat (map (\<lambda>n. map (\<lambda>toAdd. (n, toAdd)) (f n)) names))
     = concat (map f (filter (\<lambda>n. n = s) names))"
  by (induction names) (auto simp: pending_for_def o_def filter_empty_conv)

lemma pending_for_issued:
  "distinct names \<Longrightarrow>
   pending_for s (concat (map (\<lambda>n. map (\<lambda>toAdd. (n, toAdd)) (f n)) names))
     = (if s \<in> set names then f s else [])"
  by (auto simp: pending_for_concat filter_eq_distinct filter_empty_conv)

lemma importFromJsonString_Returned:
  assumes "importFromJsonString db text = Returned st"
  obtains root where "JSON_parse importResolver text = Returned (JObj root)"
    and "list_all (\<lambda>storeName. is_array_or_undefined (map_of root storeName)) (objectStoreNames db)"
    and "st = \<lparr>importObject = root, counts = (\<lambda>storeName. 0),
          add_requests = concat (map (\<lambda>storeName.
              map (\<lambda>toAdd. (storeName, toAdd)) (forEach_elements (map_of root storeName)))
            (objectStoreNames db)),
          stores = db, import_calls = []\<rparr>"
  using assms
  by (auto simp: importFromJsonString_def split: outcome.splits jsval.splits if_splits)

lemma forEach_elements_mem:
  "x \<in> set (forEach_elements v) \<Longrightarrow> \<exists>xs. v = Some (JArr xs) \<and> forEach_elements v = xs"
  by (cases v rule: forEach_elements.cases) auto

lemma import_inv_init:
  assumes "importFromJsonString db text = Returned st" "distinct (objectStoreNames db)"
  shows "import_inv st"
proof -
  from assms(1) obtain root where
    st: "st = \<lparr>importObject = root, counts = (\<lambda>storeName. 0),
          add_requests = concat (map (\<lambda>storeName.
              map (\<lambda>toAdd. (storeName, toAdd)) (forEach_elements (map_of root storeName)))
            (objectStoreNames db)),
          stores = db, import_calls = []\<rparr>"
    by (rule importFromJsonString_Returned)
  have "\<exists>xs. map_of root (fst r) = Some (JArr xs)
      \<and> length (pending_for (fst r) (add_requests st)) = length xs"
    if "r \<in> set (add_requests st)" for r
  proof -
    from that st obtain n where n: "n \<in> set (objectStoreNames db)" "fst r = n"
      and "snd r \<in> set (forEach_elements (map_of root n))"
      by auto
    then obtain xs where "map_of root n = Some (JArr xs)" "forEach_elements (map_of root n) = xs"
      using forEach_elements_mem by blast
    with n show ?thesis
      by (simp add: st pending_for_issued [OF assms(2)])
  qed
  then show ?thesis
    by (auto simp: import_inv_def st)
qed

lemma import_calls_fold_onerror:
  "import_calls (fold import_onerror es st) = import_calls st @ map Some es"
  by (induction es arbitrary: st) (simp_all add: import_onerror_def)

lemma import_error_calls:
  assumes "importFromJsonString db text = Returned st0" "distinct (objectStoreNames db)"
    and "import_run db st0 evs = Some st'" "import_run db st0 (evs @ [Fails i e]) = Some st"
  shows "add_requests st' \<noteq> []"
    and "import_calls st = map Some (error_events e (add_requests st'))"
proof -
  from assms(3,4) have s: "import_step db st' (Fails i e) = Some st"
    by (simp add: import_run_def run_snoc)
  then show ne: "add_requests st' \<noteq> []"
    by (auto split: if_splits)
  from assms(3) have "import_inv st'"
    unfolding import_run_def using import_inv_init [OF assms(1,2)] import_inv_run by blast
  with ne have "import_calls st' = []"
    by (simp add: import_inv_def)
  with s show "import_calls st = map Some (error_events e (add_requests st'))"
    by (auto simp: import_calls_fold_onerror split: if_splits)
qed

section \<open>Import of a document with an empty store\<close>

lemmas parse_eval = parse_text_def is_ws_def punctuator_def is_digit_def digit_val_def signed_def
  is_exponent_def escape_char_def hex_val_def key_before_def array_index_def

lemmas stringify_eval = JSON_stringify_def Ser_simps QuoteJSONString_def quote_unit_def
  is_high_surrogate_def is_low_surrogate_def show_int_def show_nat.simps digit_char_def
  UnicodeEscape_def hex_char_def

lemma import_step_no_requests: "add_requests st = [] \<Longrightarrow> import_step db st ev = None"
  by (cases ev) simp_all

lemma parse_empty_object: "parse_text (js ''{}'') = Returned (JObj [])"
  by (simp add: parse_text_def js_def is_ws_def punctuator_def)

lemma import_empty_object:
  "importFromJsonString [(js ''a'', [])] (js ''{}'') =
     Returned \<lparr>importObject = [], counts = (\<lambda>storeName. 0), add_requests = [],
       stores = [(js ''a'', [])], import_calls = []\<rparr>"
  by (simp add: importFromJsonString_def JSON_parse_revive parse_empty_object objectStoreNames_def)

lemma doc_ab_text:
  "JSON_stringify True (JObj [(js ''a'', JArr [JNum 1]), (js ''b'', JArr [])])
     = [0x7B, 0x22, 0x61, 0x22, 0x3A, 0x5B, 0x31, 0x5D, 0x2C, 0x22, 0x62, 0x22, 0x3A, 0x5B, 0x5D, 0x7D]"
  by (simp add: JSON_stringify_def Ser_simps QuoteJSONString_def js_def quote_unit_def
      is_high_surrogate_def is_low_surrogate_def show_int_def show_nat.simps digit_char_def)

lemma doc_ab_parse:
  "parse_text [0x7B, 0x22, 0x61, 0x22, 0x3A, 0x5B, 0x31, 0x5D, 0x2C, 0x22, 0x62, 0x22, 0x3A, 0x5B, 0x5D, 0x7D]
     = Returned (JObj [([0x61], JArr [JNum 1]), ([0x62], JArr [])])"
  by (simp add: parse_eval)

lemma import_doc_ab:
  "importFromJsonString [(js ''a'', []), (js ''b'', [])]
      (JSON_stringify True (JObj [(js ''a'', JArr [JNum 1]), (js ''b'', JArr [])])) =
     Returned \<lparr>importObject = [(js ''a'', JArr [JNum 1]), (js ''b'', JArr [])],
       counts = (\<lambda>storeName. 0), add_requests = [(js ''a'', JNum 1)],
       stores = [(js ''a'', []), (js ''b'', [])], import_calls = []\<rparr>"
  unfolding doc_ab_text
  by (simp add: importFromJsonString_def JSON_parse_revive doc_ab_parse
      objectStoreNames_def js_def startsWith_def sentinel_def)

lemma import_doc_ab_done:
  "import_onsuccess 0 \<lparr>importObject = [(js ''a'', JArr [JNum 1]), (js ''b'', JArr [])],
       counts = (\<lambda>storeName. 0), add_requests = [(js ''a'', JNum 1)],
       stores = [(js ''a'', []), (js ''b'', [])], import_calls = []\<rparr>
   = \<lparr>importObject = [(js ''b'', JArr [])],
       counts = (\<lambda>storeName. 0)(js ''a'' := 1), add_requests = [],
       stores = [(js ''a'', [JNum 1]), (js ''b'', [])], import_calls = []\<rparr>"
  by (simp add: import_onsuccess_def remove_nth_def store_add_def obj_delete_def keys_def js_def)

text \<open>
  Claim C4 says that importing the text \<open>{}\<close> into a database with stores calls back
  with a null error, and that a store absent from the document or empty in it is done
  without action. The code issues no request for such a store, and it calls \<open>cb\<close> only in
  the \<open>onsuccess\<close> handler of a request: after the import of \<open>{}\<close> into a database with
  the store \<open>a\<close> no call was made and no request is pending, so no event follows and the
  callback is never called. With the stores \<open>a\<close> and \<open>b\<close> and the document
  \<open>{"a":[1],"b":[]}\<close>, the one request succeeds, the key \<open>b\<close> stays in the document, and
  again the callback is never called.
\<close>

theorem import_empty_store_never_calls_back:
  "importFromJsonString [(js ''a'', [])] (js ''{}'') =
     Returned \<lparr>importObject = [], counts = (\<lambda>storeName. 0), add_requests = [],
       stores = [(js ''a'', [])], import_calls = []\<rparr>
   \<and> import_run [(js ''a'', [])]
        \<lparr>importObject = [], counts = (\<lambda>storeName. 0), add_requests = [],
          stores = [(js ''a'', [])], import_calls = []\<rparr> evs
      = (if evs = [] then Some \<lparr>importObject = [], counts = (\<lambda>storeName. 0), add_requests = [],
          stores = [(js ''a'', [])], import_calls = []\<rparr> else None)
   \<and> importFromJsonString [(js ''a'', []), (js ''b'', [])]
        (JSON_stringify True (JObj [(js ''a'', JArr [JNum 1]), (js ''b'', JArr [])])) =
     Returned \<lparr>importObject = [(js ''a'', JArr [JNum 1]), (js ''b'', JArr [])],
       counts = (\<lambda>storeName. 0), add_requests = [(js ''a'', JNum 1)],
       stores = [(js ''a'', []), (js ''b'', [])], import_calls = []\<rparr>
   \<and> import_run [(js ''a'', []), (js ''b'', [])]
        \<lparr>importObject = [(js ''a'', JArr [JNum 1]), (js ''b'', JArr [])],
          counts = (\<lambda>storeName. 0), add_requests = [(js ''a'', JNum 1)],
          stores = [(js ''a'', []), (js ''b'', [])], import_calls = []\<rparr> (Succeeds 0 # evs)
      = (if evs = [] then Some \<lparr>importObject = [(js ''b'', JArr [])],
          counts = (\<lambda>storeName. 0)(js ''a'' := 1), add_requests = [],
          stores = [(js ''a'', [JNum 1]), (js ''b'', [])], import_calls = []\<rparr> else None)"
proof (intro conjI)
  show "import_run [(js ''a'', []), (js ''b'', [])]
        \<lparr>importObject = [(js ''a'', JArr [JNum 1]), (js ''b'', JArr [])],
          counts = (\<lambda>storeName. 0), add_requests = [(js ''a'', JNum 1)],
          stores = [(js ''a'', []), (js ''b'', [])], import_calls = []\<rparr> (Succeeds 0 # evs)
      = (if evs = [] then Some \<lparr>importObject = [(js ''b'', JArr [])],
          counts = (\<lambda>storeName. 0)(js ''a'' := 1), add_requests = [],
          stores = [(js ''a'', [JNum 1]), (js ''b'', [])], import_calls = []\<rparr> else None)"
    unfolding import_run_def
    by (simp add: import_doc_ab_done run_no_requests import_step_no_requests)
qed (simp_all add: import_empty_object import_doc_ab import_run_def run_no_requests
    import_step_no_requests)

section \<open>The callback after a failed transaction\<close>

lemma doc_a1b2_text:
  "JSON_stringify True (JObj [(js ''a'', JArr [JNum 1]), (js ''b'', JArr [JNum 2])])
     = [0x7B, 0x22, 0x61, 0x22, 0x3A, 0x5B, 0x31, 0x5D, 0x2C, 0x22, 0x62, 0x22, 0x3A, 0x5B, 0x32, 0x5D, 0x7D]"
  by (simp add: stringify_eval js_def)

lemma doc_a1b2_parse:
  "parse_text [0x7B, 0x22, 0x61, 0x22, 0x3A, 0x5B, 0x31, 0x5D, 0x2C, 0x22, 0x62, 0x22, 0x3A, 0x5B, 0x32, 0x5D, 0x7D]
     = Returned (JObj [([0x61], JArr [JNum 1]), ([0x62], JArr [JNum 2])])"
  by (simp add: parse_eval)

lemma import_doc_a1b2:
  "importFromJsonString [(js ''a'', []), (js ''b'', [])]
      (JSON_stringify True (JObj [(js ''a'', JArr [JNum 1]), (js ''b'', JArr [JNum 2])])) =
     Returned \<lparr>importObject = [(js ''a'', JArr [JNum 1]), (js ''b'', JArr [JNum 2])],
       counts = (\<lambda>storeName. 0), add_requests = [(js ''a'', JNum 1), (js ''b'', JNum 2)],
       stores = [(js ''a'', []), (js ''b'', [])], import_calls = []\<rparr>"
  unfolding doc_a1b2_text
  by (simp add: importFromJsonString_def JSON_parse_revive doc_a1b2_parse
      objectStoreNames_def js_def startsWith_def sentinel_def)

text \<open>
  Claim C5, as amended: every error event that reaches \<open>transaction.onerror\<close> makes the
  operation call its callback once, with that event as the non-null error, and
  \<open>exportToJsonString\<close> passes null for the document. When a request fails while \<open>n\<close> requests
  of the transaction are pending (the failing one among them), the calls of the whole run
  are \<open>n\<close> such calls: one with the error event of the failed request, then one with an
  \<open>AbortError\<close> event for every other pending request; no call reports success. So the
  callback is called exactly once only if the failing request is the only pending one. For
  the import the store names of the database are distinct, as the names of object stores are.
\<close>

theorem transaction_error_calls_back:
  assumes "distinct (objectStoreNames db)"
  shows "(export_run db evs = Some est' \<and> export_run db (evs @ [Fails i e]) = Some est \<longrightarrow>
            cursors est' \<noteq> [] \<and>
            export_calls est
              = (Some e, None) # replicate (length (cursors est') - 1) (Some AbortError, None))
   \<and> (importFromJsonString db jsonString = Returned ini \<and> import_run db ini evs = Some ist'
        \<and> import_run db ini (evs @ [Fails i e]) = Some ist \<longrightarrow>
            add_requests ist' \<noteq> [] \<and>
            import_calls ist
              = Some e # replicate (length (add_requests ist') - 1) (Some AbortError))
   \<and> (clear_run db evs = Some cst' \<and> clear_run db (evs @ [Fails i e]) = Some cst \<longrightarrow>
            clear_requests cst' \<noteq> [] \<and>
            clear_calls cst
              = Some e # replicate (length (clear_requests cst') - 1) (Some AbortError))
   \<and> export_calls (export_onerror e est'') = export_calls est'' @ [(Some e, None)]
   \<and> import_calls (import_onerror e ist'') = import_calls ist'' @ [Some e]
   \<and> clear_calls (clear_onerror e cst'') = clear_calls cst'' @ [Some e]"
proof (intro conjI impI)
  assume "export_run db evs = Some est' \<and> export_run db (evs @ [Fails i e]) = Some est"
  then have r: "export_run db evs = Some est'" "export_run db (evs @ [Fails i e]) = Some est"
    by simp_all
  from export_error_calls [OF r] show "cursors est' \<noteq> []"
    and "export_calls est
      = (Some e, None) # replicate (length (cursors est') - 1) (Some AbortError, None)"
    by (simp_all add: error_events_def)
next
  assume "importFromJsonString db jsonString = Returned ini \<and> import_run db ini evs = Some ist'
        \<and> import_run db ini (evs @ [Fails i e]) = Some ist"
  then have r: "importFromJsonString db jsonString = Returned ini" "import_run db ini evs = Some ist'"
      "import_run db ini (evs @ [Fails i e]) = Some ist"
    by simp_all
  from import_error_calls [OF r(1) assms r(2,3)] show "add_requests ist' \<noteq> []"
    and "import_calls ist = Some e # replicate (length (add_requests ist') - 1) (Some AbortError)"
    by (simp_all add: error_events_def)
next
  assume "clear_run db evs = Some cst' \<and> clear_run db (evs @ [Fails i e]) = Some cst"
  then have r: "clear_run db evs = Some cst'" "clear_run db (evs @ [Fails i e]) = Some cst"
    by simp_all
  from clear_error_calls [OF r] show "clear_requests cst' \<noteq> []"
    and "clear_calls cst = Some e # replicate (length (clear_requests cst') - 1) (Some AbortError)"
    by (simp_all add: error_events_def)
qed (simp_all add: export_onerror_def import_onerror_def clear_onerror_def)

text \<open>
  Claim C5 as stated fails: the callback is called more than once when a request fails
  while another request of the transaction is pending. With the stores \<open>a\<close> and \<open>b\<close>, the
  failure of the first request of \<open>exportToJsonString\<close>, of \<open>clearDatabase\<close>, or of the import
  of \<open>{"a":[1],"b":[2]}\<close> aborts the transaction, the other request receives an \<open>AbortError\<close>
  event, and the callback is called twice.
\<close>

theorem transaction_error_calls_back_twice:
  "map_option export_calls
      (export_run [(js ''a'', []), (js ''b'', [])] [Fails 0 (ErrorEvent ''UnknownError'')])
     = Some [(Some (ErrorEvent ''UnknownError''), None), (Some AbortError, None)]
   \<and> importFromJsonString [(js ''a'', []), (js ''b'', [])]
        (JSON_stringify True (JObj [(js ''a'', JArr [JNum 1]), (js ''b'', JArr [JNum 2])])) =
       Returned \<lparr>importObject = [(js ''a'', JArr [JNum 1]), (js ''b'', JArr [JNum 2])],
         counts = (\<lambda>storeName. 0), add_requests = [(js ''a'', JNum 1), (js ''b'', JNum 2)],
         stores = [(js ''a'', []), (js ''b'', [])], import_calls = []\<rparr>
   \<and> map_option import_calls
      (import_run [(js ''a'', []), (js ''b'', [])]
        \<lparr>importObject = [(js ''a'', JArr [JNum 1]), (js ''b'', JArr [JNum 2])],
         counts = (\<lambda>storeName. 0), add_requests = [(js ''a'', JNum 1), (js ''b'', JNum 2)],
         stores = [(js ''a'', []), (js ''b'', [])], import_calls = []\<rparr>
        [Fails 0 (ErrorEvent ''ConstraintError'')])
     = Some [Some (ErrorEvent ''ConstraintError''), Some AbortError]
   \<and> map_option clear_calls
      (clear_run [(js ''a'', []), (js ''b'', [])] [Fails 0 (ErrorEvent ''UnknownError'')])
     = Some [Some (ErrorEvent ''UnknownError''), Some AbortError]"
proof (intro conjI)
  show "importFromJsonString [(js ''a'', []), (js ''b'', [])]
        (JSON_stringify True (JObj [(js ''a'', JArr [JNum 1]), (js ''b'', JArr [JNum 2])])) =
       Returned \<lparr>importObject = [(js ''a'', JArr [JNum 1]), (js ''b'', JArr [JNum 2])],
         counts = (\<lambda>storeName. 0), add_requests = [(js ''a'', JNum 1), (js ''b'', JNum 2)],
         stores = [(js ''a'', []), (js ''b'', [])], import_calls = []\<rparr>"
    by (rule import_doc_a1b2)
qed (simp_all add: export_run_def exportToJsonString_def objectStoreNames_def export_onerror_def
    import_run_def import_onerror_def clear_run_def clearDatabase_def clear_onerror_def
    error_events_def)

theorem transaction_error_calls_back_witness:
  "distinct (objectStoreNames [(js ''a'', []), (js ''b'', [])])
   \<and> export_run [(js ''a'', []), (js ''b'', [])] [Succeeds 1]
       = Some \<lparr>exportObject = [(js ''b'', JArr [])], cursors = [(js ''a'', [], [])], export_calls = []\<rparr>
   \<and> map_option export_calls
        (export_run [(js ''a'', []), (js ''b'', [])] [Succeeds 1, Fails 0 (ErrorEvent ''UnknownError'')])
       = Some [(Some (ErrorEvent ''UnknownError''), None)]
   \<and> importFromJsonString [(js ''a'', []), (js ''b'', [])]
        (JSON_stringify True (JObj [(js ''a'', JArr [JNum 1]), (js ''b'', JArr [])])) =
       Returned \<lparr>importObject = [(js ''a'', JArr [JNum 1]), (js ''b'', JArr [])],
         counts = (\<lambda>storeName. 0), add_requests = [(js ''a'', JNum 1)],
         stores = [(js ''a'', []), (js ''b'', [])], import_calls = []\<rparr>
   \<and> map_option import_calls
        (import_run [(js ''a'', []), (js ''b'', [])]
          \<lparr>importObject = [(js ''a'', JArr [JNum 1]), (js ''b'', JArr [])],
            counts = (\<lambda>storeName. 0), add_requests = [(js ''a'', JNum 1)],
            stores = [(js ''a'', []), (js ''b'', [])], import_calls = []\<rparr>
          [Fails 0 (ErrorEvent ''ConstraintError'')])
       = Some [Some (ErrorEvent ''ConstraintError'')]
   \<and> clear_run [(js ''a'', []), (js ''b'', [])] [Succeeds 1]
       = Some \<lparr>clear_count = 1, clear_requests = [js ''a''],
           clear_stores = [(js ''a'', []), (js ''b'', [])], clear_calls = []\<rparr>
   \<and> map_option clear_calls
        (clear_run [(js ''a'', []), (js ''b'', [])] [Succeeds 1, Fails 0 (ErrorEvent ''UnknownError'')])
       = Some [Some (ErrorEvent ''UnknownError'')]"
proof -
  let ?D = "[(js ''a'', []), (js ''b'', [])] :: database"
  let ?u = "ErrorEvent ''UnknownError''" and ?c = "ErrorEvent ''ConstraintError''"
  let ?est' = "\<lparr>exportObject = [(js ''b'', JArr [])], cursors = [(js ''a'', [], [])], export_calls = []\<rparr>"
  let ?est = "the (export_run ?D [Succeeds 1, Fails 0 ?u])"
  let ?ini = "\<lparr>importObject = [(js ''a'', JArr [JNum 1]), (js ''b'', JArr [])],
          counts = (\<lambda>storeName. 0), add_requests = [(js ''a'', JNum 1)],
          stores = ?D, import_calls = []\<rparr>"
  let ?ist = "the (import_run ?D ?ini [Fails 0 ?c])"
  let ?cst' = "\<lparr>clear_count = 1, clear_requests = [js ''a''], clear_stores = ?D, clear_calls = []\<rparr>"
  let ?cst = "the (clear_run ?D [Succeeds 1, Fails 0 ?u])"
  have d: "distinct (objectStoreNames ?D)"
    by (simp add: objectStoreNames_def js_def)
  have ex0: "export_run ?D [Succeeds 1] = Some ?est'"
    by (simp add: export_run_def exportToJsonString_def objectStoreNames_def export_onsuccess_def
        obj_assign_def remove_nth_def keys_def js_def)
  have ex1: "export_run ?D ([Succeeds 1] @ [Fails 0 ?u]) = Some ?est"
    by (simp add: export_run_def exportToJsonString_def objectStoreNames_def export_onsuccess_def
        obj_assign_def remove_nth_def keys_def js_def)
  have cl0: "clear_run ?D [Succeeds 1] = Some ?cst'"
    by (simp add: clear_run_def clearDatabase_def objectStoreNames_def clear_onsuccess_def
        store_clear_def remove_nth_def)
  have cl1: "clear_run ?D ([Succeeds 1] @ [Fails 0 ?u]) = Some ?cst"
    by (simp add: clear_run_def clearDatabase_def objectStoreNames_def clear_onsuccess_def
        store_clear_def remove_nth_def)
  have im0: "import_run ?D ?ini [] = Some ?ini"
    by (simp add: import_run_def)
  have im1: "import_run ?D ?ini ([] @ [Fails 0 ?c]) = Some ?ist"
    by (simp add: import_run_def)
  note t = transaction_error_calls_back [OF d]
  from t [where evs = "[Succeeds 1]" and i = 0 and e = ?u and est' = ?est' and est = ?est] ex0 ex1
  have 1: "export_calls ?est = [(Some ?u, None)]"
    by simp
  from t [where evs = "[Succeeds 1]" and i = 0 and e = ?u and cst' = ?cst' and cst = ?cst] cl0 cl1
  have 2: "clear_calls ?cst = [Some ?u]"
    by simp
  from t [where evs = "[]" and i = 0 and e = ?c and ini = ?ini and ist' = ?ini and ist = ?ist
      and jsonString = "JSON_stringify True (JObj [(js ''a'', JArr [JNum 1]), (js ''b'', JArr [])])"]
    import_doc_ab im0 im1
  have 3: "import_calls ?ist = [Some ?c]"
    by simp
  from arg_cong [OF im1, of "map_option import_calls"] 3
  have 4: "map_option import_calls (import_run ?D ?ini [Fails 0 ?c]) = Some [Some ?c]"
    by (simp only: append.simps option.map)
  from arg_cong [OF ex1, of "map_option export_calls"] 1
  have 5: "map_option export_calls (export_run ?D [Succeeds 1, Fails 0 ?u]) = Some [(Some ?u, None)]"
    by (simp only: append.simps option.map)
  from arg_cong [OF cl1, of "map_option clear_calls"] 2
  have 6: "map_option clear_calls (clear_run ?D [Succeeds 1, Fails 0 ?u]) = Some [Some ?u]"
    by (simp only: append.simps option.map)
  from d ex0 5 import_doc_ab 4 cl0 6 show ?thesis
    by (simp only: simp_thms)
qed

section \<open>Completion of the export\<close>

lemma obj_set_new:
  "k \<notin> fst ` set kvs \<Longrightarrow> \<exists>ys zs. kvs = ys @ zs \<and> obj_set kvs k v = ys @ (k, v) # zs"
proof (induction kvs)
  case Nil
  then show ?case by simp
next
  case (Cons a kvs)
  obtain k' v' where a: "a = (k', v')" by (cases a)
  show ?case
  proof (cases "key_before k k'")
    case True
    with Cons.prems a have "a # kvs = [] @ (a # kvs) \<and> obj_set (a # kvs) k v = [] @ (k, v) # (a # kvs)"
      by auto
    then show ?thesis by blast
  next
    case False
    from Cons obtain ys zs where "kvs = ys @ zs" "obj_set kvs k v = ys @ (k, v) # zs"
      by auto
    with False Cons.prems a have "a # kvs = (a # ys) @ zs \<and> obj_set (a # kvs) k v = (a # ys) @ (k, v) # zs"
      by auto
    then show ?thesis by blast
  qed
qed

lemma mset_remove_nth: "i < length xs \<Longrightarrow> mset xs = add_mset (xs ! i) (mset (remove_nth i xs))"
proof -
  assume "i < length xs"
  then have "xs = take i xs @ xs ! i # drop (Suc i) xs"
    by (rule id_take_nth_drop)
  then have "mset xs = mset (take i xs @ xs ! i # drop (Suc i) xs)"
    by simp
  then show ?thesis
    by (simp add: remove_nth_def del: append_take_drop_id)
qed

lemma export_ok_init:
  assumes "distinct (objectStoreNames db)" "db \<noteq> []"
  shows "export_ok db (exportToJsonString db)"
proof -
  have "fst \<circ> (\<lambda>(storeName, records). (storeName, [] :: jsval list, records :: jsval list))
      = (fst :: jsstring \<times> jsval list \<Rightarrow> jsstring)"
    by (auto simp: fun_eq_iff)
  moreover have "map_of db (fst c) = Some (fst (snd c) @ snd (snd c))"
    if "c \<in> set (map (\<lambda>(storeName, records). (storeName, [], records)) db)" for c
    using that assms(1) by (auto simp: objectStoreNames_def)
  ultimately show ?thesis
    using assms(2) by (auto simp: export_ok_def exportToJsonString_def objectStoreNames_def keys_def)
qed

lemma export_ok_success:
  assumes ok: "export_ok db st" and d: "distinct (objectStoreNames db)"
    and p: "js ''__proto__'' \<notin> set (objectStoreNames db)"
    and i: "i < length (cursors st)"
  shows "export_ok db (export_onsuccess db i st)"
proof -
  obtain s acc rem where n: "cursors st ! i = (s, acc, rem)"
    by (cases "cursors st ! i") auto
  from ok have A: "mset (map fst (cursors st)) + mset (keys (exportObject st)) = mset (objectStoreNames db)"
    and B: "\<forall>c \<in> set (cursors st). map_of db (fst c) = Some (fst (snd c) @ snd (snd c))"
    and C: "\<forall>kv \<in> set (exportObject st). \<exists>rs. map_of db (fst kv) = Some rs \<and> snd kv = JArr rs"
    and D: "export_calls st =
          (if length (keys (exportObject st)) = length (objectStoreNames db)
           then [(None, Some (JSON_stringify True (JObj (exportObject st))))] else [])"
    by (simp_all add: export_ok_def)
  from i n have mem: "(s, acc, rem) \<in> set (cursors st)"
    by (metis nth_mem)
  from A have sz: "length (cursors st) + length (keys (exportObject st)) = length (objectStoreNames db)"
    by (metis length_map size_mset size_union)
  with i have calls: "export_calls st = []"
    using D by auto
  show ?thesis
  proof (cases rem)
    case (Cons val rest)
    let ?cs = "(cursors st)[i := (s, acc @ [val], rest)]"
    have st': "export_onsuccess db i st = st\<lparr>cursors := ?cs\<rparr>"
      using n Cons by (simp add: export_onsuccess_def)
    have "map fst ?cs = map fst (cursors st)"
      using n i by (simp add: map_update list_update_same_conv)
    moreover have "map_of db (fst c) = Some (fst (snd c) @ snd (snd c))" if "c \<in> set ?cs" for c
    proof -
      from that have "c = (s, acc @ [val], rest) \<or> c \<in> set (cursors st)"
        using set_update_subset_insert [of "cursors st" i] by auto
      with B mem Cons show ?thesis
        by auto
    qed
    ultimately show ?thesis
      unfolding export_ok_def st' using A C D by simp
  next
    case Nil
    let ?o = "obj_set (exportObject st) s (JArr acc)"
    let ?cs = "remove_nth i (cursors st)"
    from A have "set (map fst (cursors st)) \<union> set (keys (exportObject st)) = set (objectStoreNames db)"
      by (metis set_mset_mset set_mset_union)
    with mem have "s \<in> set (objectStoreNames db)"
      by force
    with p have oa: "obj_assign (exportObject st) s (JArr acc) = ?o"
      by (auto simp: obj_assign_def)
    have st': "export_onsuccess db i st =
        st\<lparr>exportObject := ?o, cursors := ?cs,
           export_calls := (if length (objectStoreNames db) = length (keys ?o)
             then export_calls st @ [(None, Some (JSON_stringify True (JObj ?o)))]
             else export_calls st)\<rparr>"
      using n Nil oa by (simp add: export_onsuccess_def Let_def)
    have m: "mset (map fst (cursors st)) = add_mset s (mset (map fst ?cs))"
      using arg_cong [OF mset_remove_nth [OF i], of "image_mset fst"] n by simp
    have "mset (map fst (cursors st) @ keys (exportObject st)) = mset (objectStoreNames db)"
      using A by simp
    from mset_eq_imp_distinct_iff [OF this] d
    have "distinct (map fst (cursors st) @ keys (exportObject st))"
      by (simp only:)
    moreover from mem have "s \<in> set (map fst (cursors st))"
      by force
    ultimately have new: "s \<notin> fst ` set (exportObject st)"
      by (auto simp: keys_def)
    from obj_set_new [OF new, of "JArr acc"] obtain ys zs
      where o: "exportObject st = ys @ zs" "?o = ys @ (s, JArr acc) # zs"
      by blast
    then have k: "mset (keys ?o) = add_mset s (mset (keys (exportObject st)))"
      and so: "set ?o = insert (s, JArr acc) (set (exportObject st))"
      by (auto simp: keys_def)
    have A': "mset (map fst ?cs) + mset (keys ?o) = mset (objectStoreNames db)"
      using A m k by simp
    have B': "\<forall>c \<in> set ?cs. map_of db (fst c) = Some (fst (snd c) @ snd (snd c))"
      using B set_remove_nth [of i "cursors st"] by auto
    have C': "\<forall>kv \<in> set ?o. \<exists>rs. map_of db (fst kv) = Some rs \<and> snd kv = JArr rs"
      using C B mem Nil so by auto
    have D': "(if length (objectStoreNames db) = length (keys ?o)
             then export_calls st @ [(None, Some (JSON_stringify True (JObj ?o)))]
             else export_calls st) =
          (if length (keys ?o) = length (objectStoreNames db)
           then [(None, Some (JSON_stringify True (JObj ?o)))] else [])"
      using calls by auto
    show ?thesis
      unfolding export_ok_def st' using A' B' C' D' by simp
  qed
qed

lemma export_ok_run:
  "export_ok db st \<Longrightarrow> distinct (objectStoreNames db) \<Longrightarrow>
   js ''__proto__'' \<notin> set (objectStoreNames db) \<Longrightarrow> list_all is_success evs \<Longrightarrow>
   run (export_step db) st evs = Some st' \<Longrightarrow> export_ok db st'"
proof (induction evs arbitrary: st)
  case Nil
  then show ?case by simp
next
  case (Cons ev evs)
  from Cons.prems(4) obtain i where ev: "ev = Succeeds i"
    by (cases ev) auto
  with Cons.prems(5) have i: "i < length (cursors st)"
    and r: "run (export_step db) (export_onsuccess db i st) evs = Some st'"
    by (auto split: if_splits)
  from Cons.prems(4) have "list_all is_success evs"
    by simp
  from Cons.IH [OF export_ok_success [OF Cons.prems(1,2,3) i] Cons.prems(2,3) this r]
  show ?case .
qed

lemma export_ok_size:
  "export_ok db st \<Longrightarrow>
   length (cursors st) + length (keys (exportObject st)) = length (objectStoreNames db)"
  unfolding export_ok_def by (metis length_map size_mset size_union)

lemma export_ok_document:
  assumes ok: "export_ok db st" and d: "distinct (objectStoreNames db)" and c: "cursors st = []"
  shows "map_of (exportObject st) s = map_option JArr (map_of db s)"
proof -
  from ok c have m: "mset (keys (exportObject st)) = mset (objectStoreNames db)"
    by (simp add: export_ok_def)
  from mset_eq_imp_distinct_iff [OF m] d have dk: "distinct (map fst (exportObject st))"
    by (simp only: keys_def)
  from m have sk: "fst ` set (exportObject st) = fst ` set db"
    unfolding keys_def objectStoreNames_def by (metis mset_eq_setD set_map)
  show ?thesis
  proof (cases "s \<in> fst ` set db")
    case True
    with sk obtain v where v: "(s, v) \<in> set (exportObject st)"
      by force
    with ok obtain rs where "map_of db s = Some rs" "v = JArr rs"
      by (force simp: export_ok_def)
    moreover from dk v have "map_of (exportObject st) s = Some v"
      by simp
    ultimately show ?thesis
      by simp
  next
    case False
    with sk have "map_of (exportObject st) s = None" "map_of db s = None"
      by (simp_all add: map_of_eq_None_iff)
    then show ?thesis
      by simp
  qed
qed

text \<open>
  A store named \<open>__proto__\<close> is never installed as a key: the assignment
  \<open>exportObject[storeName] = allObjects\<close> changes the prototype of \<open>exportObject\<close> then, the
  number of keys stays below the number of stores, and the callback is never called.
\<close>

lemma export_proto_store:
  "export_run [(js ''__proto__'', [])] (Succeeds 0 # evs)
     = (if evs = [] then Some \<lparr>exportObject = [], cursors = [], export_calls = []\<rparr> else None)"
proof -
  have "export_step [(js ''__proto__'', [])] \<lparr>exportObject = [], cursors = [], export_calls = []\<rparr> ev = None"
    for ev
    by (cases ev) simp_all
  from run_no_requests [of "export_step [(js ''__proto__'', [])]", OF this] show ?thesis
    by (simp add: export_run_def exportToJsonString_def objectStoreNames_def export_onsuccess_def
        obj_assign_def remove_nth_def keys_def)
qed

text \<open>
  Claim C3, as amended: for a database with at least one store (the store names distinct,
  none of them \<open>__proto__\<close>) and for every order in which the cursors of the stores answer,
  \<open>exportToJsonString\<close> calls its callback exactly once, with a null error and the serialized
  \<open>exportObject\<close>, at the moment the number of keys of \<open>exportObject\<close> equals the number of
  stores, which is the moment the last cursor finishes; before that no call is made. The
  document then holds, for every store, the records of the store in cursor order, whatever
  the order of completion.
\<close>

theorem export_completes_once:
  assumes "distinct (objectStoreNames db)" and "js ''__proto__'' \<notin> set (objectStoreNames db)"
    and "db \<noteq> []" and "list_all is_success evs" and "export_run db evs = Some st"
  shows "export_calls st =
          (if length (keys (exportObject st)) = length (objectStoreNames db)
           then [(None, Some (JSON_stringify True (JObj (exportObject st))))] else [])
     \<and> (length (keys (exportObject st)) = length (objectStoreNames db)) = (cursors st = [])
     \<and> (cursors st = [] \<longrightarrow> (\<forall>s. map_of (exportObject st) s = map_option JArr (map_of db s)))"
proof -
  from export_ok_init [OF assms(1,3)] assms(5) have ok: "export_ok db st"
    unfolding export_run_def by (rule export_ok_run [OF _ assms(1,2,4)])
  from export_ok_size [OF ok] have "(length (keys (exportObject st)) = length (objectStoreNames db)) = (cursors st = [])"
    by auto
  with ok export_ok_document [OF ok assms(1)] show ?thesis
    by (simp add: export_ok_def)
qed

lemma text_ab: "JSON_stringify True (JObj [(js ''a'', JArr []), (js ''b'', JArr [])])
    = [0x7B, 0x22, 0x61, 0x22, 0x3A, 0x5B, 0x5D, 0x2C, 0x22, 0x62, 0x22, 0x3A, 0x5B, 0x5D, 0x7D]"
  by (simp add: stringify_eval js_def)

lemma text_ba: "JSON_stringify True (JObj [(js ''b'', JArr []), (js ''a'', JArr [])])
    = [0x7B, 0x22, 0x62, 0x22, 0x3A, 0x5B, 0x5D, 0x2C, 0x22, 0x61, 0x22, 0x3A, 0x5B, 0x5D, 0x7D]"
  by (simp add: stringify_eval js_def)

lemma run_ab:
  "export_run [(js ''a'', []), (js ''b'', [])] [Succeeds 0, Succeeds 0]
    = Some \<lparr>exportObject = [(js ''a'', JArr []), (js ''b'', JArr [])], cursors = [],
        export_calls = [(None, Some (JSON_stringify True (JObj [(js ''a'', JArr []), (js ''b'', JArr [])])))]\<rparr>"
  by (simp add: export_run_def exportToJsonString_def objectStoreNames_def export_onsuccess_def
      obj_assign_def remove_nth_def keys_def js_def parse_eval Let_def)

lemma run_ba:
  "export_run [(js ''a'', []), (js ''b'', [])] [Succeeds 1, Succeeds 0]
    = Some \<lparr>exportObject = [(js ''b'', JArr []), (js ''a'', JArr [])], cursors = [],
        export_calls = [(None, Some (JSON_stringify True (JObj [(js ''b'', JArr []), (js ''a'', JArr [])])))]\<rparr>"
  by (simp add: export_run_def exportToJsonString_def objectStoreNames_def export_onsuccess_def
      obj_assign_def remove_nth_def keys_def js_def parse_eval Let_def)

text \<open>
  Claim C3 as stated fails: the text handed to the callback depends on the order in which
  the stores complete. The keys of \<open>exportObject\<close> are created in that order and
  \<open>JSON.stringify\<close> prints keys that are not array indices in creation order. For the empty
  stores \<open>a\<close> and \<open>b\<close> the text is \<open>{"a":[],"b":[]}\<close> when \<open>a\<close> completes first and
  \<open>{"b":[],"a":[]}\<close> when \<open>b\<close> does.
\<close>

theorem export_text_follows_completion_order:
  "map_option export_calls (export_run [(js ''a'', []), (js ''b'', [])] [Succeeds 0, Succeeds 0])
     = Some [(None, Some [0x7B, 0x22, 0x61, 0x22, 0x3A, 0x5B, 0x5D, 0x2C, 0x22, 0x62, 0x22, 0x3A, 0x5B, 0x5D, 0x7D])]
   \<and> map_option export_calls (export_run [(js ''a'', []), (js ''b'', [])] [Succeeds 1, Succeeds 0])
     = Some [(None, Some [0x7B, 0x22, 0x62, 0x22, 0x3A, 0x5B, 0x5D, 0x2C, 0x22, 0x61, 0x22, 0x3A, 0x5B, 0x5D, 0x7D])]
   \<and> map_option export_calls (export_run [(js ''a'', []), (js ''b'', [])] [Succeeds 0, Succeeds 0])
     \<noteq> map_option export_calls (export_run [(js ''a'', []), (js ''b'', [])] [Succeeds 1, Succeeds 0])"
  unfolding run_ab run_ba text_ab text_ba by simp

theorem export_completes_once_witness:
  "distinct (objectStoreNames [(js ''a'', [JNum 1]), (js ''b'', [])])
   \<and> js ''__proto__'' \<notin> set (objectStoreNames [(js ''a'', [JNum 1]), (js ''b'', [])])
   \<and> [(js ''a'', [JNum 1]), (js ''b'', [])] \<noteq> ([] :: database)
   \<and> list_all is_success [Succeeds 1, Succeeds 0, Succeeds 0]
   \<and> export_run [(js ''a'', [JNum 1]), (js ''b'', [])] [Succeeds 1, Succeeds 0, Succeeds 0]
       = Some \<lparr>exportObject = [(js ''b'', JArr []), (js ''a'', JArr [JNum 1])], cursors = [],
           export_calls = [(None, Some (JSON_stringify True (JObj [(js ''b'', JArr []), (js ''a'', JArr [JNum 1])])))]\<rparr>
   \<and> map_of [(js ''b'', JArr []), (js ''a'', JArr [JNum 1])] (js ''a'') = Some (JArr [JNum 1])"
proof -
  let ?D = "[(js ''a'', [JNum 1]), (js ''b'', [])] :: database"
  let ?st = "\<lparr>exportObject = [(js ''b'', JArr []), (js ''a'', JArr [JNum 1])], cursors = [],
           export_calls = [(None, Some (JSON_stringify True (JObj [(js ''b'', JArr []), (js ''a'', JArr [JNum 1])])))]\<rparr>"
  have d: "distinct (objectStoreNames ?D)"
    by (simp add: objectStoreNames_def js_def)
  have p: "js ''__proto__'' \<notin> set (objectStoreNames ?D)"
    by (simp add: objectStoreNames_def js_def)
  have n: "?D \<noteq> []"
    by simp
  have s: "list_all is_success [Succeeds 1, Succeeds 0, Succeeds 0]"
    by simp
  have r: "export_run ?D [Succeeds 1, Succeeds 0, Succeeds 0] = Some ?st"
    by (simp add: export_run_def exportToJsonString_def objectStoreNames_def export_onsuccess_def
        obj_assign_def remove_nth_def keys_def js_def parse_eval Let_def)
  from export_completes_once [OF d p n s r]
  have "map_of (exportObject ?st) (js ''a'') = map_option JArr (map_of ?D (js ''a''))"
    by simp
  then have "map_of [(js ''b'', JArr []), (js ''a'', JArr [JNum 1])] (js ''a'') = Some (JArr [JNum 1])"
    by simp
  with d p n s r show ?thesis
    by simp
qed

section \<open>Malformed text\<close>

text \<open>
  Claim C9, as amended: for a database that declares at least one store, when the text
  given to \<open>importFromJsonString\<close> is not valid JSON the call throws the parser's
  \<open>SyntaxError\<close> to its caller; no state with handlers or calls of \<open>cb\<close> comes out of it.
  The call throws a \<open>SyntaxError\<close> in exactly this case. For a database without stores the
  call throws the \<open>InvalidAccessError\<close> of \<open>idbDatabase.transaction\<close> before it reads the
  text.
\<close>

theorem import_malformed_text:
  "(importFromJsonString idbDatabase jsonString = Threw SyntaxError)
     = (objectStoreNames idbDatabase \<noteq> [] \<and> parse_text jsonString = Threw SyntaxError)
   \<and> (objectStoreNames idbDatabase = [] \<longrightarrow>
        importFromJsonString idbDatabase jsonString = Threw InvalidAccessError)"
  by (auto simp: importFromJsonString_def JSON_parse_def
      split: outcome.splits jsval.splits if_splits)

text \<open>
  Claim C9 as stated fails for a database without stores: the text \<open>{\<close> is not valid JSON,
  and the call throws an \<open>InvalidAccessError\<close>, which is not a parse exception.
\<close>

theorem import_storeless_throws_before_parsing:
  "parse_text (js ''{'') = Threw SyntaxError
   \<and> importFromJsonString [] (js ''{'') = Threw InvalidAccessError
   \<and> importFromJsonString [] (js ''{'') \<noteq> Threw SyntaxError"
  by (simp add: importFromJsonString_def objectStoreNames_def parse_text_def js_def is_ws_def
      punctuator_def)

theorem import_malformed_text_witness:
  "objectStoreNames [(js ''a'', [])] \<noteq> []
   \<and> parse_text (js ''[1.5'') = Threw SyntaxError
   \<and> importFromJsonString [(js ''a'', [])] (js ''[1.5'') = Threw SyntaxError
   \<and> objectStoreNames ([] :: database) = []
   \<and> importFromJsonString [] (js ''[1.5'') = Threw InvalidAccessError"
proof -
  have 1: "parse_text (js ''[1.5'') = Threw SyntaxError"
    by (simp add: parse_eval js_def)
  have 2: "objectStoreNames [(js ''a'', [])] \<noteq> []" "objectStoreNames ([] :: database) = []"
    by (simp_all add: objectStoreNames_def)
  from import_malformed_text [of "[(js ''a'', [])]" "js ''[1.5''"] 1 2
  have 3: "importFromJsonString [(js ''a'', [])] (js ''[1.5'') = Threw SyntaxError"
    by simp
  from import_malformed_text [of "[]" "js ''[1.5''"] 2
  have 4: "importFromJsonString [] (js ''[1.5'') = Threw InvalidAccessError"
    by simp
  from 1 2 3 4 show ?thesis
    by simp
qed

end
